theory Spec2Isabelle
  imports Main "HOL-Library.Sublist"
begin

section \<open>Data model of \<open>src/src/render.js\<close>\<close>

text \<open>
  A page (a rendering session) is an object of the rendering engine; the model names it by
  the number the engine gave it when \<open>browser.newPage()\<close> created it.
\<close>

type_synonym page = nat

record viewport =
  width :: int
  height :: int
  deviceScaleFactor :: int

text \<open>The \<open>CONFIG\<close> object (lines 7-18).\<close>

record config =
  PAGE_POOL_SIZE :: nat
  MAX_CONCURRENT :: nat
  PREWARM_PAGES :: bool
  CACHE_TEMPLATES :: bool
  PRECOMPILE_TEMPLATES :: bool

definition CONFIG :: config where
  "CONFIG = \<lparr>PAGE_POOL_SIZE = 16, MAX_CONCURRENT = 16, PREWARM_PAGES = True,
             CACHE_TEMPLATES = True, PRECOMPILE_TEMPLATES = True\<rparr>"

text \<open>
  Errors are values. \<open>TemplateNotFound name\<close> is \<open>new Error(`Template not found: ${name}`)\<close>
  of line 204; \<open>LibraryError msg\<close> is any error raised by ejs or by puppeteer.
\<close>

datatype error = TemplateNotFound string | LibraryError string

text \<open>
  What an awaited call does for its caller: it returns, it raises, or it stays pending
  for ever (the polling promise of \<open>acquirePage\<close>, lines 149-163, when nothing is released).
\<close>

datatype 'a outcome = Returned 'a | Raised error | Pending

text \<open>
  The options object of \<open>page.screenshot\<close> (lines 286-295) and the commands the code sends to
  the engine. The log \<open>calls\<close> keeps every command with its arguments, in the order sent.
\<close>

datatype clip = Clip (clip_x: int) (clip_y: int) (clip_width: int) (clip_height: int)

datatype shot_opts = ShotOpts (shot_type: string) (shot_clip: clip) (omitBackground: bool)

datatype call =
    Launch
  | NewPage
  | SetRequestInterception page
  | SetViewport page viewport
  | SetContent page string string
  | WaitForFunction page int
  | EvaluateBoundingBox page
  | Screenshot page shot_opts
  | EvaluateClearBody page
  | ClosePage page

text \<open>
  The module variables \<open>browser\<close>, \<open>pagePool\<close>, \<open>busyPages\<close> (lines 20-22) and the part of
  the engine the code reads: \<open>page.isClosed()\<close>, \<open>page.viewport()\<close>.

  \<open>pagePool\<close> is a JS array used as a stack (\<open>push\<close>, \<open>pop\<close>): the head of the list is the
  last element of the array, the page \<open>pop()\<close> returns. \<open>busyPages\<close> is a JS \<open>Set\<close>: a list
  without repetition in insertion order, its \<open>size\<close> the length.
\<close>

record pstate =
  browser :: bool
  pagePool :: "page list"
  busyPages :: "page list"
  nextPage :: nat
  isClosed :: "page \<Rightarrow> bool"
  page_viewport :: "page \<Rightarrow> viewport"
  calls :: "call list"

definition set_add :: "'a \<Rightarrow> 'a list \<Rightarrow> 'a list" where
  "set_add x xs = (if x \<in> set xs then xs else xs @ [x])"

definition set_delete :: "'a \<Rightarrow> 'a list \<Rightarrow> 'a list" where
  "set_delete x xs = removeAll x xs"

definition init_pstate :: pstate where
  "init_pstate = \<lparr>browser = False, pagePool = [], busyPages = [], nextPage = 0,
     isClosed = (\<lambda>_. False),
     page_viewport = (\<lambda>_. \<lparr>width = 800, height = 600, deviceScaleFactor = 1\<rparr>),
     calls = []\<rparr>"

section \<open>The page pool\<close>

subsection \<open>\<open>createPage\<close> (lines 103-126)\<close>

text \<open>
  Three awaited engine calls, each of which may raise; the environment says which.
  A page that \<open>newPage\<close> returned is open. When a later call raises, the page exists in the
  engine but no variable of the module holds it. The request handler of lines 108-116
  (abort images, media and fonts) runs inside the engine and changes no state of the model.
\<close>

datatype create_env =
    CreateSucceeds
  | NewPageRaises error
  | InterceptionRaises error
  | ViewportRaises error

definition default_viewport :: viewport where
  "default_viewport = \<lparr>width = 800, height = 600, deviceScaleFactor = 2\<rparr>"

definition newPage :: "pstate \<Rightarrow> pstate" where
  "newPage s = s\<lparr>nextPage := Suc (nextPage s),
                 isClosed := (isClosed s)(nextPage s := False),
                 calls := calls s @ [NewPage]\<rparr>"

definition createPage :: "create_env \<Rightarrow> pstate \<Rightarrow> pstate \<times> (error + page)" where
  "createPage ce s =
     (let p = nextPage s in
      case ce of
        NewPageRaises e \<Rightarrow> (s\<lparr>calls := calls s @ [NewPage]\<rparr>, Inl e)
      | InterceptionRaises e \<Rightarrow>
          (let s1 = newPage s in
           (s1\<lparr>calls := calls s1 @ [SetRequestInterception p]\<rparr>, Inl e))
      | ViewportRaises e \<Rightarrow>
          (let s1 = newPage s in
           (s1\<lparr>calls := calls s1 @ [SetRequestInterception p, SetViewport p default_viewport]\<rparr>,
            Inl e))
      | CreateSucceeds \<Rightarrow>
          (let s1 = newPage s in
           (s1\<lparr>page_viewport := (page_viewport s1)(p := default_viewport),
               calls := calls s1 @ [SetRequestInterception p, SetViewport p default_viewport]\<rparr>,
            Inr p)))"

text \<open>The error \<open>createPage\<close> raises in each environment, if any.\<close>

fun create_error :: "create_env \<Rightarrow> error option" where
  "create_error CreateSucceeds = None"
| "create_error (NewPageRaises e) = Some e"
| "create_error (InterceptionRaises e) = Some e"
| "create_error (ViewportRaises e) = Some e"

subsection \<open>\<open>prewarmPagePool\<close> (lines 89-98)\<close>

text \<open>
  \<open>PAGE_POOL_SIZE\<close> calls of \<open>createPage\<close>, awaited together by \<open>Promise.all\<close>: when one
  raises, \<open>prewarmPagePool\<close> raises and pushes nothing. The model creates the pages in
  index order and, when several calls raise, reports the error of the lowest index.
\<close>

fun createPages :: "create_env list \<Rightarrow> pstate \<Rightarrow> pstate \<times> (error + page) list" where
  "createPages [] s = (s, [])"
| "createPages (ce # ces) s =
     (case createPage ce s of (s1, r) \<Rightarrow>
        (case createPages ces s1 of (s2, rs) \<Rightarrow> (s2, r # rs)))"

fun promise_all :: "(error + 'a) list \<Rightarrow> error + 'a list" where
  "promise_all [] = Inr []"
| "promise_all (Inl e # rs) = Inl e"
| "promise_all (Inr x # rs) = (case promise_all rs of Inl e \<Rightarrow> Inl e | Inr xs \<Rightarrow> Inr (x # xs))"

definition prewarmPagePool :: "config \<Rightarrow> (nat \<Rightarrow> create_env) \<Rightarrow> pstate \<Rightarrow> pstate \<times> (error + unit)" where
  "prewarmPagePool cfg env s =
     (case createPages (map env [0..<PAGE_POOL_SIZE cfg]) s of (s1, rs) \<Rightarrow>
        (case promise_all rs of
           Inl e \<Rightarrow> (s1, Inl e)
         | Inr pages \<Rightarrow> (s1\<lparr>pagePool := rev pages @ pagePool s1\<rparr>, Inr ())))"

subsection \<open>\<open>acquirePage\<close> (lines 131-164)\<close>

text \<open>The loop of lines 133-139: pop until an open page is found or the pool is empty.\<close>

fun pop_open :: "(page \<Rightarrow> bool) \<Rightarrow> page list \<Rightarrow> page option \<times> page list" where
  "pop_open closed [] = (None, [])"
| "pop_open closed (p # ps) = (if closed p then pop_open closed ps else (Some p, ps))"

text \<open>
  \<open>acquirePage\<close> run with no other task in between. When the pool has no open page and
  \<open>busyPages.size\<close> has reached \<open>MAX_CONCURRENT\<close>, the promise of line 149 is resolved only
  by a timer that finds \<open>pagePool\<close> non-empty; alone, that never happens: \<open>Pending\<close>.
\<close>

definition acquirePage :: "config \<Rightarrow> create_env \<Rightarrow> pstate \<Rightarrow> pstate \<times> page outcome" where
  "acquirePage cfg ce s =
     (case pop_open (isClosed s) (pagePool s) of
        (Some p, rest) \<Rightarrow>
          (s\<lparr>pagePool := rest, busyPages := set_add p (busyPages s)\<rparr>, Returned p)
      | (None, rest) \<Rightarrow>
          (let s1 = s\<lparr>pagePool := rest\<rparr> in
           if length (busyPages s1) < MAX_CONCURRENT cfg then
             (case createPage ce s1 of
                (s2, Inl e) \<Rightarrow> (s2, Raised e)
              | (s2, Inr p) \<Rightarrow> (s2\<lparr>busyPages := set_add p (busyPages s2)\<rparr>, Returned p))
           else (s1, Pending)))"

subsection \<open>\<open>releasePage\<close> (lines 169-192)\<close>

text \<open>
  The environment of one release: whether the reset \<open>page.evaluate\<close> of line 178 raises,
  whether \<open>page.close()\<close> of line 185 raises, and how the \<open>createPage\<close> of line 188 goes.
  A \<open>page.close()\<close> that returns leaves the page closed; one that raises is caught by the
  empty \<open>catch\<close> of line 186 and the model leaves the page as it was.
\<close>

record release_env =
  r_reset :: "error option"
  r_close :: "error option"
  r_create :: create_env

definition closePage :: "error option \<Rightarrow> page \<Rightarrow> pstate \<Rightarrow> pstate" where
  "closePage r p s =
     (let s1 = s\<lparr>calls := calls s @ [ClosePage p]\<rparr> in
      case r of None \<Rightarrow> s1\<lparr>isClosed := (isClosed s1)(p := True)\<rparr> | Some e \<Rightarrow> s1)"

definition releasePage :: "config \<Rightarrow> release_env \<Rightarrow> page \<Rightarrow> pstate \<Rightarrow> pstate \<times> (error + unit)" where
  "releasePage cfg env p s =
     (let s1 = s\<lparr>busyPages := set_delete p (busyPages s)\<rparr> in
      if isClosed s1 p then (s1, Inr ())
      else
        (let s2 = s1\<lparr>calls := calls s1 @ [EvaluateClearBody p]\<rparr> in
         case r_reset env of
           None \<Rightarrow> (s2\<lparr>pagePool := p # pagePool s2\<rparr>, Inr ())
         | Some e \<Rightarrow>
             (let s3 = closePage (r_close env) p s2 in
              if length (pagePool s3) < PAGE_POOL_SIZE cfg then
                (case createPage (r_create env) s3 of
                   (s4, Inl e') \<Rightarrow> (s4, Inl e')
                 | (s4, Inr q) \<Rightarrow> (s4\<lparr>pagePool := q # pagePool s4\<rparr>, Inr ()))
              else (s3, Inr ()))))"

section \<open>The template cache\<close>

text \<open>
  The module variables \<open>templateCache\<close> and \<open>compiledTemplates\<close> (lines 23-24) and what the
  code reads of the file system: \<open>files\<close> lists the directory \<open>../templates\<close>, each file name
  with its content. The environment may change \<open>files\<close> between two calls. \<open>path.join\<close> is
  taken as the file name \<open>name.ejs\<close> inside that directory.

  \<open>ejs.compile\<close> belongs to the ejs library and is a parameter: it raises or returns a
  function from the data to the markup, which may raise in turn. \<open>ejs.render(src, data)\<close> is
  \<open>ejs.compile(src)(data)\<close>.
\<close>

type_synonym 'd compiled = "'d \<Rightarrow> error + string"

type_synonym 'd ejs = "string \<Rightarrow> error + 'd compiled"

record 'd tstate =
  files :: "(string \<times> string) list"
  templateCache :: "string \<rightharpoonup> string"
  compiledTemplates :: "string \<rightharpoonup> 'd compiled"

definition init_tstate :: "(string \<times> string) list \<Rightarrow> 'd tstate" where
  "init_tstate fs = \<lparr>files = fs, templateCache = Map.empty, compiledTemplates = Map.empty\<rparr>"

definition ejs_render :: "'d ejs \<Rightarrow> string \<Rightarrow> 'd \<Rightarrow> error + string" where
  "ejs_render ejs src d = (case ejs src of Inl e \<Rightarrow> Inl e | Inr f \<Rightarrow> f d)"

text \<open>\<open>String.prototype.replace\<close> with a string pattern: the first occurrence only.\<close>

fun replace_first :: "string \<Rightarrow> string \<Rightarrow> string \<Rightarrow> string" where
  "replace_first pat rep [] = (if pat = [] then rep else [])"
| "replace_first pat rep (c # cs) =
     (if prefix pat (c # cs) then rep @ drop (length pat) (c # cs)
      else c # replace_first pat rep cs)"

subsection \<open>\<open>precompileTemplates\<close> (lines 29-42)\<close>

fun precompile_loop :: "'d ejs \<Rightarrow> (string \<times> string) list \<Rightarrow> 'd tstate \<Rightarrow> 'd tstate \<times> (error + unit)" where
  "precompile_loop ejs [] t = (t, Inr ())"
| "precompile_loop ejs ((file, template) # fs) t =
     (let name = replace_first ''.ejs'' [] file;
          t1 = t\<lparr>templateCache := (templateCache t)(name \<mapsto> template)\<rparr>
      in case ejs template of
           Inl e \<Rightarrow> (t1, Inl e)
         | Inr f \<Rightarrow> precompile_loop ejs fs (t1\<lparr>compiledTemplates := (compiledTemplates t1)(name \<mapsto> f)\<rparr>))"

definition precompileTemplates :: "'d ejs \<Rightarrow> 'd tstate \<Rightarrow> 'd tstate \<times> (error + unit)" where
  "precompileTemplates ejs t =
     precompile_loop ejs (filter (\<lambda>(f, _). suffix ''.ejs'' f) (files t)) t"

subsection \<open>\<open>getTemplate\<close> (lines 197-216)\<close>

definition getTemplate :: "config \<Rightarrow> 'd ejs \<Rightarrow> string \<Rightarrow> 'd tstate \<Rightarrow> 'd tstate \<times> (error + string)" where
  "getTemplate cfg ejs templateName t =
     (if CACHE_TEMPLATES cfg \<and> templateCache t templateName \<noteq> None
      then (t, Inr (the (templateCache t templateName)))
      else
        (case map_of (files t) (templateName @ ''.ejs'') of
           None \<Rightarrow> (t, Inl (TemplateNotFound templateName))
         | Some template \<Rightarrow>
             (if CACHE_TEMPLATES cfg then
                (let t1 = t\<lparr>templateCache := (templateCache t)(templateName \<mapsto> template)\<rparr>
                 in case ejs template of
                      Inl e \<Rightarrow> (t1, Inl e)
                    | Inr f \<Rightarrow>
                        (t1\<lparr>compiledTemplates := (compiledTemplates t1)(templateName \<mapsto> f)\<rparr>,
                         Inr template))
              else (t, Inr template))))"

subsection \<open>\<open>renderTemplate\<close> (lines 221-230)\<close>

definition renderTemplate :: "config \<Rightarrow> 'd ejs \<Rightarrow> string \<Rightarrow> 'd \<Rightarrow> 'd tstate \<Rightarrow> 'd tstate \<times> (error + string)" where
  "renderTemplate cfg ejs templateName d t =
     (case compiledTemplates t templateName of
        Some f \<Rightarrow> (t, f d)
      | None \<Rightarrow>
          (case getTemplate cfg ejs templateName t of
             (t1, Inl e) \<Rightarrow> (t1, Inl e)
           | (t1, Inr template) \<Rightarrow> (t1, ejs_render ejs template d)))"

subsection \<open>\<open>clearTemplateCache\<close> (lines 311-314)\<close>

definition clearTemplateCache :: "'d tstate \<Rightarrow> 'd tstate" where
  "clearTemplateCache t = t\<lparr>templateCache := Map.empty\<rparr>"

section \<open>The render pipeline\<close>

subsection \<open>\<open>getBrowser\<close> (lines 47-84)\<close>

text \<open>
  The environment of one call of \<open>render\<close>: for each awaited engine call, whether it raises.
  \<open>e_wait\<close> is the rejection of \<open>waitForFunction\<close>, its timeout or any other error.
\<close>

record render_env =
  e_launch :: "error option"
  e_prewarm :: "nat \<Rightarrow> create_env"
  e_create :: create_env
  e_setViewport :: "error option"
  e_setContent :: "error option"
  e_wait :: "error option"
  e_measure :: "error + (int \<times> int)"
  e_screenshot :: "error + string"
  e_release :: release_env

definition getBrowser :: "config \<Rightarrow> 'd ejs \<Rightarrow> render_env \<Rightarrow> 'd tstate \<times> pstate \<Rightarrow> ('d tstate \<times> pstate) \<times> (error + unit)" where
  "getBrowser cfg ejs env ts =
     (case ts of (t, s) \<Rightarrow>
      if browser s then ((t, s), Inr ())
      else
        (case (if PRECOMPILE_TEMPLATES cfg then precompileTemplates ejs t else (t, Inr ())) of
           (t1, Inl e) \<Rightarrow> ((t1, s), Inl e)
         | (t1, Inr _) \<Rightarrow>
             (let s1 = s\<lparr>calls := calls s @ [Launch]\<rparr> in
              case e_launch env of
                Some e \<Rightarrow> ((t1, s1), Inl e)
              | None \<Rightarrow>
                  (let s2 = s1\<lparr>browser := True\<rparr> in
                   if PREWARM_PAGES cfg then
                     (case prewarmPagePool cfg (e_prewarm env) s2 of
                        (s3, Inl e) \<Rightarrow> ((t1, s3), Inl e)
                      | (s3, Inr _) \<Rightarrow> ((t1, s3), Inr ()))
                   else ((t1, s2), Inr ())))))"

subsection \<open>\<open>render\<close> (lines 240-306)\<close>

text \<open>
  The \<open>try\<close> block, lines 251-302, on the acquired page. \<open>options.width || 800\<close> is 800 when
  the width is absent or 0. A rejection of \<open>waitForFunction\<close> goes to \<open>.catch(() => {})\<close>
  of line 270. The 50 ms timer of line 273 and the log of lines 297-300 touch no state of
  the model.
\<close>

text \<open>\<open>options.width || 800\<close> (line 252).\<close>

definition requested_width :: "int option \<Rightarrow> int" where
  "requested_width opt_width = (case opt_width of None \<Rightarrow> 800 | Some n \<Rightarrow> if n = 0 then 800 else n)"

text \<open>\<open>promise.catch(() => {})\<close>: whatever the promise rejects with, the result is fulfilled.\<close>

definition catch_ignore :: "error option \<Rightarrow> error option" where
  "catch_ignore r = (case r of Some e \<Rightarrow> None | None \<Rightarrow> None)"

definition render_try :: "render_env \<Rightarrow> string \<Rightarrow> int option \<Rightarrow> page \<Rightarrow> pstate \<Rightarrow> pstate \<times> (error + string)" where
  "render_try env html opt_width p s =
     (let w = requested_width opt_width;
          currentViewport = page_viewport s p;
          vp = \<lparr>width = w, height = 600, deviceScaleFactor = 2\<rparr>;
          s0 = s\<lparr>calls := calls s @ [SetViewport p vp]\<rparr>
      in if width currentViewport \<noteq> w \<and> e_setViewport env \<noteq> None
         then (s0, Inl (the (e_setViewport env)))
         else
           (let s1 = (if width currentViewport \<noteq> w
                      then s0\<lparr>page_viewport := (page_viewport s0)(p := vp)\<rparr> else s);
                s2 = s1\<lparr>calls := calls s1 @ [SetContent p html ''domcontentloaded'']\<rparr>
            in case e_setContent env of
                 Some e \<Rightarrow> (s2, Inl e)
               | None \<Rightarrow>
                   (let s3 = s2\<lparr>calls := calls s2 @ [WaitForFunction p 3000]\<rparr> in
                    case catch_ignore (e_wait env) of
                      Some e \<Rightarrow> (s3, Inl e)
                    | None \<Rightarrow>
                        (let s4 = s3\<lparr>calls := calls s3 @ [EvaluateBoundingBox p]\<rparr> in
                         case e_measure env of
                           Inl e \<Rightarrow> (s4, Inl e)
                         | Inr (bw, bh) \<Rightarrow>
                             (let s5 = s4\<lparr>calls := calls s4 @
                                    [Screenshot p (ShotOpts ''png'' (Clip 0 0 bw bh) False)]\<rparr>
                              in (s5, e_screenshot env))))))"

text \<open>
  The whole of \<open>render\<close>: template, browser, acquisition, the \<open>try\<close> block, and the
  \<open>finally\<close> of lines 303-305. An error raised by \<open>releasePage\<close> inside \<open>finally\<close> replaces
  the result of the \<open>try\<close> block.
\<close>

definition render :: "config \<Rightarrow> 'd ejs \<Rightarrow> render_env \<Rightarrow> string \<Rightarrow> 'd \<Rightarrow> int option \<Rightarrow> 'd tstate \<times> pstate \<Rightarrow> ('d tstate \<times> pstate) \<times> string outcome" where
  "render cfg ejs env templateName d opt_width ts =
     (case ts of (t, s) \<Rightarrow>
      case renderTemplate cfg ejs templateName d t of
        (t1, Inl e) \<Rightarrow> ((t1, s), Raised e)
      | (t1, Inr html) \<Rightarrow>
          (case getBrowser cfg ejs env (t1, s) of
             ((t2, s2), Inl e) \<Rightarrow> ((t2, s2), Raised e)
           | ((t2, s2), Inr _) \<Rightarrow>
               (case acquirePage cfg (e_create env) s2 of
                  (s3, Raised e) \<Rightarrow> ((t2, s3), Raised e)
                | (s3, Pending) \<Rightarrow> ((t2, s3), Pending)
                | (s3, Returned p) \<Rightarrow>
                    (case render_try env html opt_width p s3 of (s4, r) \<Rightarrow>
                       (case releasePage cfg (e_release env) p s4 of
                          (s5, Inl e') \<Rightarrow> ((t2, s5), Raised e')
                        | (s5, Inr _) \<Rightarrow>
                            ((t2, s5), (case r of Inl e \<Rightarrow> Raised e | Inr png \<Rightarrow> Returned png)))))))"

section \<open>Calls of \<open>acquirePage\<close> and \<open>releasePage\<close> in flight together\<close>

text \<open>
  JavaScript runs one task at a time and leaves a call only at an \<open>await\<close> (or when a timer
  is installed). The code between two such points runs alone; the callers of \<open>render\<close> are
  interleaved at these points. A task is a call of \<open>render\<close> seen from the pool: where its
  \<open>acquirePage\<close> or \<open>releasePage\<close> is suspended, or which page it holds in between.
\<close>

datatype task =
    AcqCreating
  | AcqPolling
  | Holding page
  | RelResetting page
  | RelClosing page
  | RelReplacing

record sys =
  pool :: pstate
  tasks :: "nat \<Rightarrow> task option"

text \<open>
  Lines 133-149, from the call of \<open>acquirePage\<close> to its first suspension: a page was
  popped (and the call returns), or \<open>createPage\<close> is awaited, or the timer is installed.
\<close>

datatype acq_sync = Got page | MustCreate | MustWait

definition acquire_sync :: "config \<Rightarrow> pstate \<Rightarrow> pstate \<times> acq_sync" where
  "acquire_sync cfg s =
     (case pop_open (isClosed s) (pagePool s) of
        (Some p, rest) \<Rightarrow>
          (s\<lparr>pagePool := rest, busyPages := set_add p (busyPages s)\<rparr>, Got p)
      | (None, rest) \<Rightarrow>
          (let s1 = s\<lparr>pagePool := rest\<rparr> in
           if length (busyPages s1) < MAX_CONCURRENT cfg then (s1, MustCreate)
           else (s1, MustWait)))"

fun acq_task :: "acq_sync \<Rightarrow> task" where
  "acq_task (Got p) = Holding p"
| "acq_task MustCreate = AcqCreating"
| "acq_task MustWait = AcqPolling"

text \<open>
  The events: a caller enters \<open>acquirePage\<close>; the \<open>createPage\<close> of line 143 settles; the
  timer of line 150 fires; the holder of a page enters \<open>releasePage\<close>; the reset of line
  178, the \<open>close\<close> of line 185 and the \<open>createPage\<close> of line 188 settle; the engine closes a
  page on its own. \<open>step\<close> is \<open>None\<close> when the task is not at the point the event needs.
  A task whose \<open>acquirePage\<close> raised, or whose \<open>releasePage\<close> has ended, is forgotten: it
  holds nothing and its number is free again.
\<close>

datatype event =
    CallAcquire nat
  | CreateSettles nat create_env
  | TimerFires nat
  | CallRelease nat
  | ResetSettles nat "error option"
  | CloseSettles nat "error option"
  | ReplaceSettles nat create_env
  | PageCloses page

fun step :: "config \<Rightarrow> event \<Rightarrow> sys \<Rightarrow> sys option" where
  "step cfg (CallAcquire tid) s =
     (case tasks s tid of
        None \<Rightarrow>
          (case acquire_sync cfg (pool s) of (ps, r) \<Rightarrow>
             Some (s\<lparr>pool := ps, tasks := (tasks s)(tid \<mapsto> acq_task r)\<rparr>))
      | Some _ \<Rightarrow> None)"
| "step cfg (CreateSettles tid ce) s =
     (case tasks s tid of
        Some AcqCreating \<Rightarrow>
          (case createPage ce (pool s) of
             (ps, Inl e) \<Rightarrow> Some (s\<lparr>pool := ps, tasks := (tasks s)(tid := None)\<rparr>)
           | (ps, Inr p) \<Rightarrow>
               Some (s\<lparr>pool := ps\<lparr>busyPages := set_add p (busyPages ps)\<rparr>,
                       tasks := (tasks s)(tid \<mapsto> Holding p)\<rparr>))
      | _ \<Rightarrow> None)"
| "step cfg (TimerFires tid) s =
     (case tasks s tid of
        Some AcqPolling \<Rightarrow>
          (case pagePool (pool s) of
             [] \<Rightarrow> Some s
           | p # rest \<Rightarrow>
               (let ps = (pool s)\<lparr>pagePool := rest\<rparr> in
                if \<not> isClosed ps p then
                  Some (s\<lparr>pool := ps\<lparr>busyPages := set_add p (busyPages ps)\<rparr>,
                          tasks := (tasks s)(tid \<mapsto> Holding p)\<rparr>)
                else
                  (case acquire_sync cfg ps of (ps', r) \<Rightarrow>
                     Some (s\<lparr>pool := ps', tasks := (tasks s)(tid \<mapsto> acq_task r)\<rparr>))))
      | _ \<Rightarrow> None)"
| "step cfg (CallRelease tid) s =
     (case tasks s tid of
        Some (Holding p) \<Rightarrow>
          (let ps = (pool s)\<lparr>busyPages := set_delete p (busyPages (pool s))\<rparr> in
           if isClosed ps p then Some (s\<lparr>pool := ps, tasks := (tasks s)(tid := None)\<rparr>)
           else Some (s\<lparr>pool := ps\<lparr>calls := calls ps @ [EvaluateClearBody p]\<rparr>,
                        tasks := (tasks s)(tid \<mapsto> RelResetting p)\<rparr>))
      | _ \<Rightarrow> None)"
| "step cfg (ResetSettles tid r) s =
     (case tasks s tid of
        Some (RelResetting p) \<Rightarrow>
          (case r of
             None \<Rightarrow>
               Some (s\<lparr>pool := (pool s)\<lparr>pagePool := p # pagePool (pool s)\<rparr>,
                       tasks := (tasks s)(tid := None)\<rparr>)
           | Some e \<Rightarrow>
               Some (s\<lparr>pool := (pool s)\<lparr>calls := calls (pool s) @ [ClosePage p]\<rparr>,
                       tasks := (tasks s)(tid \<mapsto> RelClosing p)\<rparr>))
      | _ \<Rightarrow> None)"
| "step cfg (CloseSettles tid r) s =
     (case tasks s tid of
        Some (RelClosing p) \<Rightarrow>
          (let ps = (case r of
                       None \<Rightarrow> (pool s)\<lparr>isClosed := (isClosed (pool s))(p := True)\<rparr>
                     | Some e \<Rightarrow> pool s) in
           if length (pagePool ps) < PAGE_POOL_SIZE cfg
           then Some (s\<lparr>pool := ps, tasks := (tasks s)(tid \<mapsto> RelReplacing)\<rparr>)
           else Some (s\<lparr>pool := ps, tasks := (tasks s)(tid := None)\<rparr>))
      | _ \<Rightarrow> None)"
| "step cfg (ReplaceSettles tid ce) s =
     (case tasks s tid of
        Some RelReplacing \<Rightarrow>
          (case createPage ce (pool s) of
             (ps, Inl e) \<Rightarrow> Some (s\<lparr>pool := ps, tasks := (tasks s)(tid := None)\<rparr>)
           | (ps, Inr q) \<Rightarrow>
               Some (s\<lparr>pool := ps\<lparr>pagePool := q # pagePool ps\<rparr>,
                       tasks := (tasks s)(tid := None)\<rparr>))
      | _ \<Rightarrow> None)"
| "step cfg (PageCloses p) s =
     Some (s\<lparr>pool := (pool s)\<lparr>isClosed := (isClosed (pool s))(p := True)\<rparr>\<rparr>)"

fun run :: "config \<Rightarrow> event list \<Rightarrow> sys \<Rightarrow> sys option" where
  "run cfg [] s = Some s"
| "run cfg (ev # evs) s = (case step cfg ev s of None \<Rightarrow> None | Some s' \<Rightarrow> run cfg evs s')"

text \<open>
  The state in which requests are served: \<open>getBrowser\<close> has launched the browser and
  \<open>prewarmPagePool\<close> has filled the pool, every \<open>createPage\<close> succeeding; no call in flight.
\<close>

definition warm_sys :: "config \<Rightarrow> sys" where
  "warm_sys cfg =
     \<lparr>pool = fst (prewarmPagePool cfg (\<lambda>_. CreateSucceeds)
                    (init_pstate\<lparr>browser := True, calls := [Launch]\<rparr>)),
      tasks = (\<lambda>_. None)\<rparr>"

section \<open>Who holds which page\<close>

text \<open>
  The page a task owns: the page \<open>acquirePage\<close> returned to it, until the reset of its
  \<open>releasePage\<close> has settled. \<open>exclusive\<close>: the pages of the pool are distinct and exist, no
  owned page is in the pool, and no page has two owners. \<open>dropped S\<close>: page \<open>S\<close> exists, is
  not in the pool and is owned by no task.
\<close>

fun page_of :: "task \<Rightarrow> page option" where
  "page_of (Holding p) = Some p"
| "page_of (RelResetting p) = Some p"
| "page_of t = None"

definition owns :: "sys \<Rightarrow> nat \<Rightarrow> page \<Rightarrow> bool" where
  "owns s tid p = (\<exists>t. tasks s tid = Some t \<and> page_of t = Some p)"

definition dropped :: "page \<Rightarrow> sys \<Rightarrow> bool" where
  "dropped S s =
     (S < nextPage (pool s) \<and> S \<notin> set (pagePool (pool s))
      \<and> (\<forall>tid. tasks s tid \<noteq> Some (Holding S) \<and> tasks s tid \<noteq> Some (RelResetting S)))"

definition exclusive :: "sys \<Rightarrow> bool" where
  "exclusive s =
     (distinct (pagePool (pool s))
      \<and> (\<forall>p \<in> set (pagePool (pool s)). p < nextPage (pool s))
      \<and> (\<forall>tid p. owns s tid p \<longrightarrow> p < nextPage (pool s) \<and> p \<notin> set (pagePool (pool s)))
      \<and> (\<forall>tid tid' p. owns s tid p \<longrightarrow> owns s tid' p \<longrightarrow> tid = tid'))"

text \<open>
  The events of one \<open>releasePage\<close> and of one \<open>acquirePage\<close> that run with no other task in
  between, and the task an \<open>acquirePage\<close> leaves behind.
\<close>

definition release_events :: "config \<Rightarrow> release_env \<Rightarrow> nat \<Rightarrow> page \<Rightarrow> pstate \<Rightarrow> event list" where
  "release_events cfg env tid p ps =
     (if isClosed ps p then [CallRelease tid]
      else case r_reset env of
             None \<Rightarrow> [CallRelease tid, ResetSettles tid None]
           | Some e \<Rightarrow>
               [CallRelease tid, ResetSettles tid (Some e), CloseSettles tid (r_close env)] @
               (if length (pagePool ps) < PAGE_POOL_SIZE cfg
                then [ReplaceSettles tid (r_create env)] else []))"

definition acquire_events :: "config \<Rightarrow> create_env \<Rightarrow> nat \<Rightarrow> pstate \<Rightarrow> event list" where
  "acquire_events cfg ce tid ps =
     (case snd (acquire_sync cfg ps) of
        MustCreate \<Rightarrow> [CallAcquire tid, CreateSettles tid ce]
      | _ \<Rightarrow> [CallAcquire tid])"

fun outcome_task :: "page outcome \<Rightarrow> task option" where
  "outcome_task (Returned p) = Some (Holding p)"
| "outcome_task (Raised e) = None"
| "outcome_task Pending = Some AcqPolling"

section \<open>Reading the state\<close>

text \<open>
  The commands of the log that only the \<open>try\<close> block of \<open>render\<close> sends, and among them the
  captures with their options and the readiness waits with their timeouts.
\<close>

fun pipeline_call :: "call \<Rightarrow> bool" where
  "pipeline_call (SetContent p html w) = True"
| "pipeline_call (WaitForFunction p ms) = True"
| "pipeline_call (EvaluateBoundingBox p) = True"
| "pipeline_call (Screenshot p opts) = True"
| "pipeline_call c = False"

definition pipeline :: "call list \<Rightarrow> call list" where
  "pipeline cs = filter pipeline_call cs"

fun screenshots :: "call list \<Rightarrow> (page \<times> shot_opts) list" where
  "screenshots [] = []"
| "screenshots (Screenshot p opts # cs) = (p, opts) # screenshots cs"
| "screenshots (c # cs) = screenshots cs"

fun waits :: "call list \<Rightarrow> (page \<times> int) list" where
  "waits [] = []"
| "waits (WaitForFunction p ms # cs) = (p, ms) # waits cs"
| "waits (c # cs) = waits cs"

text \<open>The sessions of the pool, idle or busy, and what the claims say of their viewports.\<close>

definition sessions :: "pstate \<Rightarrow> page set" where
  "sessions s = set (pagePool s) \<union> set (busyPages s)"

definition vp_ok :: "pstate \<Rightarrow> page \<Rightarrow> bool" where
  "vp_ok s p = (height (page_viewport s p) = 600 \<and> deviceScaleFactor (page_viewport s p) = 2)"

definition viewports_ok :: "pstate \<Rightarrow> bool" where
  "viewports_ok s = (\<forall>p \<in> sessions s. vp_ok s p)"

text \<open>Calls of \<open>render\<close> one after the other, each with its environment and arguments.\<close>

fun renders :: "config \<Rightarrow> 'd ejs \<Rightarrow> (render_env \<times> string \<times> 'd \<times> int option) list \<Rightarrow> 'd tstate \<times> pstate \<Rightarrow> 'd tstate \<times> pstate" where
  "renders cfg ejs [] ts = ts"
| "renders cfg ejs ((env, templateName, d, opt_width) # reqs) ts =
     renders cfg ejs reqs (fst (render cfg ejs env templateName d opt_width ts))"

section \<open>Concrete runs\<close>

text \<open>
  Sixteen requests hold the sixteen pages of the pool. The first of them enters
  \<open>releasePage\<close>: its page leaves \<open>busyPages\<close> at line 170 and is not yet back in \<open>pagePool\<close>
  while the reset of line 178 is awaited. Two more requests arrive: each finds the pool
  empty and \<open>busyPages.size = 15 < 16\<close> at line 142 and awaits \<open>createPage\<close>; each then adds
  its new page at line 144.
\<close>

definition race_events :: "event list" where
  "race_events =
     map CallAcquire [0..<16] @
     [CallRelease 0, CallAcquire 16, CallAcquire 17,
      CreateSettles 16 CreateSucceeds, CreateSettles 17 CreateSucceeds]"

definition busy_count :: "sys \<Rightarrow> nat" where
  "busy_count s = length (busyPages (pool s))"

text \<open>The warm pool after one \<open>acquirePage\<close>: page 15 is busy, pages 14 to 0 are idle.\<close>

definition one_held :: pstate where
  "one_held = fst (acquirePage CONFIG CreateSucceeds (pool (warm_sys CONFIG)))"

definition reset_ok :: release_env where
  "reset_ok = \<lparr>r_reset = None, r_close = None, r_create = CreateSucceeds\<rparr>"

text \<open>Environments of a release whose reset fails.\<close>

definition reset_fails_no_replacement :: release_env where
  "reset_fails_no_replacement =
     \<lparr>r_reset = Some (LibraryError ''Execution context was destroyed''),
      r_close = None,
      r_create = NewPageRaises (LibraryError ''Target closed'')\<rparr>"

definition reset_fails_replaced :: release_env where
  "reset_fails_replaced =
     \<lparr>r_reset = Some (LibraryError ''Execution context was destroyed''),
      r_close = None,
      r_create = CreateSucceeds\<rparr>"

text \<open>
  A stand-in for \<open>ejs.compile\<close>: it rejects the empty template; the compiled function
  raises on empty data and otherwise returns the template followed by the data.
\<close>

definition test_ejs :: "string ejs" where
  "test_ejs src = (if src = [] then Inl (LibraryError ''empty template'')
                   else Inr (\<lambda>d. if d = [] then Inl (LibraryError ''data is not defined'')
                                   else Inr (src @ d)))"

text \<open>
  One template file, \<open>card.ejs\<close>. In \<open>card_stale\<close> the template was rendered once, the file
  was then edited, and \<open>clearTemplateCache\<close> was called.
\<close>

definition card_v1 :: "string tstate" where
  "card_v1 = init_tstate [(''card.ejs'', ''old:'')]"

definition card_stale :: "string tstate" where
  "card_stale =
     clearTemplateCache
       ((fst (renderTemplate CONFIG test_ejs ''card'' ''x'' card_v1))\<lparr>files := [(''card.ejs'', ''new:'')]\<rparr>)"

text \<open>Environments of a render: every engine call succeeds; the content load fails.\<close>

definition all_ok :: render_env where
  "all_ok = \<lparr>e_launch = None, e_prewarm = (\<lambda>_. CreateSucceeds), e_create = CreateSucceeds,
     e_setViewport = None, e_setContent = None, e_wait = None,
     e_measure = Inr (800, 420), e_screenshot = Inr ''PNG'', e_release = reset_ok\<rparr>"

definition content_fails :: render_env where
  "content_fails = all_ok\<lparr>e_setContent := Some (LibraryError ''Navigation failed'')\<rparr>"

text \<open>The first request of a process: the template state and the warm pool it works on.\<close>

definition card_t1 :: "string tstate" where
  "card_t1 = fst (renderTemplate CONFIG test_ejs ''card'' ''x'' card_v1)"

definition first_browser :: "(string tstate \<times> pstate) \<times> (error + unit)" where
  "first_browser = getBrowser CONFIG test_ejs content_fails (card_t1, init_pstate)"

text \<open>
  A render whose readiness wait is rejected after its 3000 ms; the first render of a
  process with every call succeeding, and with the wait timing out; a render at width 420.
\<close>

definition wait_times_out :: render_env where
  "wait_times_out = all_ok\<lparr>e_wait := Some (LibraryError ''Waiting failed: 3000ms exceeded'')\<rparr>"

definition first_render :: "(string tstate \<times> pstate) \<times> string outcome" where
  "first_render = render CONFIG test_ejs all_ok ''card'' ''x'' None (card_v1, init_pstate)"

definition timeout_render :: "(string tstate \<times> pstate) \<times> string outcome" where
  "timeout_render = render CONFIG test_ejs wait_times_out ''card'' ''x'' None (card_v1, init_pstate)"

definition narrow_request :: "render_env \<times> string \<times> string \<times> int option" where
  "narrow_request = (all_ok, ''card'', ''x'', Some 420)"

definition after_narrow :: pstate where
  "after_narrow = snd (renders CONFIG test_ejs [narrow_request] (card_v1, init_pstate))"

text \<open>
  Runs from the warm pool. \<open>resume evs s\<close> is the state after the events \<open>evs\<close> from \<open>s\<close>.
  Task 0 acquires page 15 and releases it; the reset fails; then the close succeeds, or
  (\<open>reset_and_close_fail\<close>) raises as well.
\<close>

definition resume :: "event list \<Rightarrow> sys \<Rightarrow> sys" where
  "resume evs s = (case run CONFIG evs s of Some s' \<Rightarrow> s' | None \<Rightarrow> s)"

definition reset_error :: error where
  "reset_error = LibraryError ''Execution context was destroyed''"

definition reset_and_close_fail :: release_env where
  "reset_and_close_fail =
     \<lparr>r_reset = Some (LibraryError ''Execution context was destroyed''),
      r_close = Some (LibraryError ''Protocol error: Connection closed''),
      r_create = CreateSucceeds\<rparr>"

definition reset_pending :: sys where
  "reset_pending = resume [CallAcquire 0, CallRelease 0] (warm_sys CONFIG)"

definition after_failed_reset :: "event list" where
  "after_failed_reset =
     [ResetSettles 0 (Some reset_error), CloseSettles 0 None, ReplaceSettles 0 CreateSucceeds,
      CallAcquire 1, CallAcquire 2]"

definition close_pending :: sys where
  "close_pending = resume [ResetSettles 0 (Some reset_error)] reset_pending"

definition after_close :: "event list" where
  "after_close = [CloseSettles 0 None, ReplaceSettles 0 CreateSucceeds, CallAcquire 1]"

text \<open>
  A render whose content load fails and whose release then finds the reset failing too;
  the states in which the two failing renders hold page 15, and the renders themselves.
\<close>

definition reset_fails_render :: render_env where
  "reset_fails_render = content_fails\<lparr>e_release := reset_fails_replaced\<rparr>"

definition second_browser :: "(string tstate \<times> pstate) \<times> (error + unit)" where
  "second_browser = getBrowser CONFIG test_ejs reset_fails_render (card_t1, init_pstate)"

definition first_held :: pstate where
  "first_held = fst (acquirePage CONFIG (e_create content_fails) (snd (fst first_browser)))"

definition second_held :: pstate where
  "second_held = fst (acquirePage CONFIG (e_create reset_fails_render) (snd (fst second_browser)))"

definition failed_render :: "(string tstate \<times> pstate) \<times> string outcome" where
  "failed_render = render CONFIG test_ejs content_fails ''card'' ''x'' None (card_v1, init_pstate)"

definition failed_render_reset :: "(string tstate \<times> pstate) \<times> string outcome" where
  "failed_render_reset =
     render CONFIG test_ejs reset_fails_render ''card'' ''x'' None (card_v1, init_pstate)"

section \<open>Properties of the page pool\<close>

lemma releasePage_reset_ok:
  "\<not> isClosed s p \<Longrightarrow> r_reset env = None \<Longrightarrow>
   releasePage cfg env p s =
     (s\<lparr>busyPages := set_delete p (busyPages s),
        calls := calls s @ [EvaluateClearBody p],
        pagePool := p # pagePool s\<rparr>, Inr ())"
  by (simp add: releasePage_def Let_def)

lemma acquirePage_top_open:
  "pagePool s = p # ps \<Longrightarrow> \<not> isClosed s p \<Longrightarrow>
   acquirePage cfg ce s = (s\<lparr>pagePool := ps, busyPages := set_add p (busyPages s)\<rparr>, Returned p)"
  by (simp add: acquirePage_def)

text \<open>
  C1. The claim: after every step of every interleaving of acquire and release,
  \<open>busyPages.size \<le> MAX_CONCURRENT\<close>. The code breaks it. In the run \<open>race_events\<close> from
  the warm pool under \<open>CONFIG\<close> (\<open>MAX_CONCURRENT = 16\<close>) every event is enabled and the run
  ends with 17 pages in \<open>busyPages\<close>: the test of line 142 and the \<open>busyPages.add\<close> of line
  144 are separated by the \<open>await\<close> of line 143.
\<close>

theorem busy_exceeds_max_concurrent:
  "map_option busy_count (run CONFIG race_events (warm_sys CONFIG)) = Some 17
   \<and> MAX_CONCURRENT CONFIG = 16"
  by code_simp

text \<open>
  C10. \<open>releasePage\<close> never looks whether the page is in \<open>busyPages\<close>: for every state and
  every open page, busy or not, a release whose reset succeeds pushes the page. Released
  twice, the page is twice on top of \<open>pagePool\<close>, and the next two calls of \<open>acquirePage\<close>
  both return it.
\<close>

theorem double_release_double_issue:
  assumes "\<not> isClosed s p" and "r_reset e1 = None" and "r_reset e2 = None"
  shows "let s1 = fst (releasePage cfg e1 p s);
             s2 = fst (releasePage cfg e2 p s1);
             s3 = fst (acquirePage cfg c1 s2)
         in snd (releasePage cfg e1 p s) = Inr () \<and> snd (releasePage cfg e2 p s1) = Inr ()
          \<and> pagePool s2 = p # p # pagePool s
          \<and> snd (acquirePage cfg c1 s2) = Returned p
          \<and> snd (acquirePage cfg c2 s3) = Returned p"
  using assms
  by (simp add: releasePage_reset_ok acquirePage_top_open Let_def)

theorem double_release_double_issue_witness:
  "\<not> isClosed one_held 15 \<and> r_reset reset_ok = None
   \<and> pagePool (fst (releasePage CONFIG reset_ok 15 (fst (releasePage CONFIG reset_ok 15 one_held))))
       = 15 # 15 # pagePool one_held
   \<and> snd (acquirePage CONFIG CreateSucceeds
        (fst (releasePage CONFIG reset_ok 15 (fst (releasePage CONFIG reset_ok 15 one_held)))))
       = Returned 15
   \<and> snd (acquirePage CONFIG CreateSucceeds (fst (acquirePage CONFIG CreateSucceeds
        (fst (releasePage CONFIG reset_ok 15 (fst (releasePage CONFIG reset_ok 15 one_held)))))))
       = Returned 15"
proof -
  have h1: "\<not> isClosed one_held 15" by code_simp
  have h2: "r_reset reset_ok = None" by (simp add: reset_ok_def)
  show ?thesis
    using double_release_double_issue [OF h1 h2 h2, of CONFIG CreateSucceeds CreateSucceeds] h1 h2
    by (simp add: Let_def)
qed

lemma snd_createPage:
  "snd (createPage ce s) = (case create_error ce of Some e \<Rightarrow> Inl e | None \<Rightarrow> Inr (nextPage s))"
  by (cases ce) (simp_all add: createPage_def Let_def)

lemma createPage_pool [simp]:
  "pagePool (fst (createPage ce s)) = pagePool s"
  "busyPages (fst (createPage ce s)) = busyPages s"
  "browser (fst (createPage ce s)) = browser s"
  by (cases ce; simp add: createPage_def Let_def newPage_def)+

lemma closePage_pool [simp]:
  "pagePool (closePage r p s) = pagePool s"
  "busyPages (closePage r p s) = busyPages s"
  "nextPage (closePage r p s) = nextPage s"
  "browser (closePage r p s) = browser s"
  "page_viewport (closePage r p s) = page_viewport s"
  by (cases r; simp add: closePage_def Let_def)+

lemma releasePage_busy [simp]:
  "busyPages (fst (releasePage cfg env p s)) = set_delete p (busyPages s)"
  by (cases "createPage (r_create env)
        (closePage (r_close env) p
          (s\<lparr>busyPages := set_delete p (busyPages s),
              calls := calls s @ [EvaluateClearBody p]\<rparr>))")
     (auto simp: releasePage_def Let_def split: option.splits sum.splits prod.splits
           dest: arg_cong[where f="\<lambda>x. busyPages (fst x)"])

lemma set_set_add [simp]: "set (set_add x xs) = insert x (set xs)"
  by (auto simp: set_add_def)

lemma set_set_delete [simp]: "set (set_delete x xs) = set xs - {x}"
  by (auto simp: set_delete_def)

text \<open>
  C4. The claim: when the reset fails, the replacement is created without the releasing
  caller waiting for it, and \<open>releasePage\<close> never raises. The code awaits \<open>createPage\<close> at
  line 188 inside the \<open>catch\<close> block, outside any \<open>try\<close>: an error of \<open>createPage\<close> leaves
  \<open>releasePage\<close>. Here the reset of page 15 fails, the pool holds 15 pages, below
  \<open>PAGE_POOL_SIZE = 16\<close>, and \<open>browser.newPage()\<close> raises.
\<close>

theorem release_raises_when_replacement_fails:
  "snd (releasePage CONFIG reset_fails_no_replacement 15 one_held)
     = Inl (LibraryError ''Target closed'')"
  by code_simp

text \<open>
  C4 as the code has it. \<open>releasePage\<close> raises exactly when the page is open, its reset
  fails, the pool is below \<open>PAGE_POOL_SIZE\<close> and \<open>createPage\<close> raises, and it raises the error
  of \<open>createPage\<close>. The replacement is created inside the call: when \<open>createPage\<close> succeeds,
  the new page is on top of \<open>pagePool\<close> when \<open>releasePage\<close> returns.
\<close>

theorem releasePage_raises_iff:
  "(snd (releasePage cfg env p s) = Inl e \<longleftrightarrow>
      \<not> isClosed s p \<and> r_reset env \<noteq> None \<and> length (pagePool s) < PAGE_POOL_SIZE cfg
      \<and> create_error (r_create env) = Some e)
   \<and> (\<not> isClosed s p \<and> r_reset env \<noteq> None \<and> length (pagePool s) < PAGE_POOL_SIZE cfg
      \<and> r_create env = CreateSucceeds \<longrightarrow>
        snd (releasePage cfg env p s) = Inr ()
        \<and> pagePool (fst (releasePage cfg env p s)) = nextPage s # pagePool s)"
proof -
  let ?s3 = "closePage (r_close env) p
          (s\<lparr>busyPages := set_delete p (busyPages s),
              calls := calls s @ [EvaluateClearBody p]\<rparr>)"
  obtain s4 r where c: "createPage (r_create env) ?s3 = (s4, r)"
    by (cases "createPage (r_create env) ?s3")
  have r: "r = (case create_error (r_create env) of Some e \<Rightarrow> Inl e | None \<Rightarrow> Inr (nextPage s))"
    using snd_createPage[of "r_create env" ?s3] c by (simp split: option.splits)
  have p4: "pagePool s4 = pagePool s"
    using createPage_pool(1)[of "r_create env" ?s3] c by simp
  show ?thesis
    using c r p4
    by (auto simp: releasePage_def Let_def split: option.splits sum.splits)
qed

theorem releasePage_raises_iff_witness:
  "\<not> isClosed one_held 15 \<and> r_reset reset_fails_replaced \<noteq> None
   \<and> length (pagePool one_held) < PAGE_POOL_SIZE CONFIG
   \<and> r_create reset_fails_replaced = CreateSucceeds
   \<and> snd (releasePage CONFIG reset_fails_replaced 15 one_held) = Inr ()
   \<and> pagePool (fst (releasePage CONFIG reset_fails_replaced 15 one_held))
       = nextPage one_held # pagePool one_held"
proof -
  have h: "\<not> isClosed one_held 15 \<and> r_reset reset_fails_replaced \<noteq> None
     \<and> length (pagePool one_held) < PAGE_POOL_SIZE CONFIG
     \<and> r_create reset_fails_replaced = CreateSucceeds"
    by code_simp
  show ?thesis
    using releasePage_raises_iff [of CONFIG reset_fails_replaced 15 one_held] h
    by simp
qed

section \<open>Properties of the template cache\<close>

text \<open>
  C3. The claim: after \<open>clearTemplateCache\<close> every render compiles the current source again.
  The code breaks it: \<open>clearTemplateCache\<close> empties \<open>templateCache\<close> only (line 312), and
  \<open>renderTemplate\<close> looks into \<open>compiledTemplates\<close> first (line 223). With \<open>card.ejs\<close> rendered
  once, then edited, then the cache cleared, the render still gives the markup of the old
  source, not that of the source now on disk.
\<close>

theorem clear_keeps_compiled_template:
  "snd (renderTemplate CONFIG test_ejs ''card'' ''x'' card_v1) = Inr ''old:x''
   \<and> map_of (files card_stale) ''card.ejs'' = Some ''new:''
   \<and> templateCache card_stale ''card'' = None
   \<and> snd (renderTemplate CONFIG test_ejs ''card'' ''x'' card_stale) = Inr ''old:x''
   \<and> ejs_render test_ejs ''new:'' ''x'' = Inr ''new:x''"
  by (simp add: card_stale_def card_v1_def init_tstate_def clearTemplateCache_def
        renderTemplate_def getTemplate_def CONFIG_def test_ejs_def ejs_render_def)

section \<open>Properties of the render pipeline\<close>

lemma renderTemplate_not_found:
  "compiledTemplates t name = None \<Longrightarrow> templateCache t name = None \<Longrightarrow>
   map_of (files t) (name @ ''.ejs'') = None \<Longrightarrow>
   renderTemplate cfg ejs name d t = (t, Inl (TemplateNotFound name))"
  by (simp add: renderTemplate_def getTemplate_def)

text \<open>
  C6. When the template step of \<open>render\<close> raises, whatever the error (the template is not
  found, or compiling or running it raises), \<open>render\<close> raises that error and the pool state
  is the one it started from: no browser launched, no page created or acquired, no command
  sent to the engine. An identifier that is in neither cache and has no file raises
  \<open>Template not found\<close> and leaves the template state unchanged as well.
\<close>

theorem template_failure_touches_no_session:
  "(renderTemplate cfg ejs name d t = (t1, Inl e) \<longrightarrow>
      render cfg ejs env name d ow (t, s) = ((t1, s), Raised e))
   \<and> (compiledTemplates t name = None \<and> templateCache t name = None
        \<and> map_of (files t) (name @ ''.ejs'') = None \<longrightarrow>
      render cfg ejs env name d ow (t, s) = ((t, s), Raised (TemplateNotFound name)))"
  by (simp add: render_def renderTemplate_not_found)

theorem template_failure_touches_no_session_witness:
  "renderTemplate CONFIG test_ejs ''does-not-exist'' ''x'' card_v1
     = (card_v1, Inl (TemplateNotFound ''does-not-exist''))
   \<and> compiledTemplates card_v1 ''does-not-exist'' = None
   \<and> templateCache card_v1 ''does-not-exist'' = None
   \<and> map_of (files card_v1) (''does-not-exist'' @ ''.ejs'') = None
   \<and> render CONFIG test_ejs all_ok ''does-not-exist'' ''x'' None (card_v1, init_pstate)
       = ((card_v1, init_pstate), Raised (TemplateNotFound ''does-not-exist''))"
proof -
  have h: "compiledTemplates card_v1 ''does-not-exist'' = None
     \<and> templateCache card_v1 ''does-not-exist'' = None
     \<and> map_of (files card_v1) (''does-not-exist'' @ ''.ejs'') = None"
    by (simp add: card_v1_def init_tstate_def)
  have r: "renderTemplate CONFIG test_ejs ''does-not-exist'' ''x'' card_v1
     = (card_v1, Inl (TemplateNotFound ''does-not-exist''))"
    using h by (simp add: renderTemplate_def getTemplate_def)
  show ?thesis
    using template_failure_touches_no_session
      [of CONFIG test_ejs "''does-not-exist''" "''x''" card_v1 card_v1
          "TemplateNotFound ''does-not-exist''" all_ok None init_pstate] h r
    by simp
qed

lemma render_try_pool [simp]:
  "busyPages (fst (render_try env html ow p s)) = busyPages s"
  "pagePool (fst (render_try env html ow p s)) = pagePool s"
  "nextPage (fst (render_try env html ow p s)) = nextPage s"
  "isClosed (fst (render_try env html ow p s)) = isClosed s"
  by (auto simp: render_try_def Let_def catch_ignore_def split: option.splits sum.splits prod.splits)

lemma acquirePage_Returned_busy:
  "acquirePage cfg ce s = (s', Returned p) \<Longrightarrow> set (busyPages s') = insert p (set (busyPages s))"
  by (auto simp: acquirePage_def Let_def split: prod.splits option.splits if_splits sum.splits
           dest!: arg_cong[where f="\<lambda>x. busyPages (fst x)"])

subsection \<open>The commands sent to the engine\<close>

lemma pipeline_append [simp]: "pipeline (xs @ ys) = pipeline xs @ pipeline ys"
  by (simp add: pipeline_def)

lemma pipeline_simps [simp]:
  "pipeline [] = []"
  "pipeline (c # cs) = (if pipeline_call c then c # pipeline cs else pipeline cs)"
  by (simp_all add: pipeline_def)

lemma screenshots_append [simp]: "screenshots (xs @ ys) = screenshots xs @ screenshots ys"
  by (induction xs rule: screenshots.induct) simp_all

lemma waits_append [simp]: "waits (xs @ ys) = waits xs @ waits ys"
  by (induction xs rule: waits.induct) simp_all

lemma screenshots_pipeline: "screenshots (pipeline cs) = screenshots cs"
  by (induction cs rule: screenshots.induct) simp_all

lemma waits_pipeline: "waits (pipeline cs) = waits cs"
  by (induction cs rule: waits.induct) simp_all

lemma createPage_pipeline:
  "createPage ce s = (s', r) \<Longrightarrow> pipeline (calls s') = pipeline (calls s)"
  by (cases ce) (auto simp: createPage_def Let_def newPage_def)

lemma createPages_pipeline:
  "createPages ces s = (s', rs) \<Longrightarrow> pipeline (calls s') = pipeline (calls s)"
proof (induction ces arbitrary: s s' rs)
  case Nil
  then show ?case by simp
next
  case (Cons ce ces)
  then show ?case
    by (auto split: prod.splits dest!: createPage_pipeline)
qed

lemma prewarmPagePool_pipeline:
  "prewarmPagePool cfg env s = (s', r) \<Longrightarrow> pipeline (calls s') = pipeline (calls s)"
  by (auto simp: prewarmPagePool_def split: prod.splits sum.splits dest!: createPages_pipeline)

lemma acquirePage_pipeline:
  "acquirePage cfg ce s = (s', r) \<Longrightarrow> pipeline (calls s') = pipeline (calls s)"
  by (auto simp: acquirePage_def Let_def split: prod.splits sum.splits option.splits if_splits
           dest!: createPage_pipeline)

lemma closePage_pipeline [simp]: "pipeline (calls (closePage r p s)) = pipeline (calls s)"
  by (cases r) (simp_all add: closePage_def Let_def)

lemma releasePage_pipeline:
  "releasePage cfg env p s = (s', r) \<Longrightarrow> pipeline (calls s') = pipeline (calls s)"
  by (auto simp: releasePage_def Let_def split: option.splits prod.splits sum.splits if_splits
           dest!: createPage_pipeline)

lemma getBrowser_pipeline:
  "getBrowser cfg ejs env (t, s) = ((t', s'), r) \<Longrightarrow> pipeline (calls s') = pipeline (calls s)"
  by (auto simp: getBrowser_def Let_def split: prod.splits sum.splits option.splits if_splits
           dest!: prewarmPagePool_pipeline)

lemma render_try_Inr:
  assumes "render_try env html ow p s = (s', Inr png)"
  shows "\<exists>W H. e_measure env = Inr (W, H) \<and> e_screenshot env = Inr png
           \<and> pipeline (calls s') = pipeline (calls s) @
               [SetContent p html ''domcontentloaded'', WaitForFunction p 3000,
                EvaluateBoundingBox p, Screenshot p (ShotOpts ''png'' (Clip 0 0 W H) False)]"
  using assms
  by (auto simp: render_try_def Let_def catch_ignore_def
           split: option.splits sum.splits prod.splits if_splits)

lemma render_try_waits:
  "render_try env html ow p s = (s', r) \<Longrightarrow>
   waits (calls s') = waits (calls s) \<or> waits (calls s') = waits (calls s) @ [(p, 3000)]"
  by (auto simp: render_try_def Let_def catch_ignore_def
           split: option.splits sum.splits prod.splits if_splits)

lemma render_try_wait_irrelevant:
  "render_try (env\<lparr>e_wait := w\<rparr>) html ow p s = render_try env html ow p s"
  by (auto simp: render_try_def catch_ignore_def Let_def split: option.splits sum.splits prod.splits)

text \<open>The stages of a call of render that reached the try block.\<close>

lemma render_stages:
  assumes "render cfg ejs env name d ow (t, s) = ((t', s'), out)"
  shows "(\<exists>e. out = Raised e \<and> pipeline (calls s') = pipeline (calls s))
       \<or> (out = Pending \<and> pipeline (calls s') = pipeline (calls s))
       \<or> (\<exists>t1 html s2 s3 p s4 r4 r5.
            renderTemplate cfg ejs name d t = (t1, Inr html)
          \<and> getBrowser cfg ejs env (t1, s) = ((t', s2), Inr ())
          \<and> acquirePage cfg (e_create env) s2 = (s3, Returned p)
          \<and> render_try env html ow p s3 = (s4, r4)
          \<and> releasePage cfg (e_release env) p s4 = (s', r5)
          \<and> pipeline (calls s3) = pipeline (calls s)
          \<and> pipeline (calls s') = pipeline (calls s4)
          \<and> out = (case r5 of Inl e' \<Rightarrow> Raised e'
                    | Inr _ \<Rightarrow> (case r4 of Inl e \<Rightarrow> Raised e | Inr png \<Rightarrow> Returned png)))"
proof -
  obtain t1 r1 where rt: "renderTemplate cfg ejs name d t = (t1, r1)"
    by (cases "renderTemplate cfg ejs name d t")
  show ?thesis
  proof (cases r1)
    case (Inl e)
    with assms rt show ?thesis by (auto simp: render_def)
  next
    case (Inr html)
    obtain t2 s2 r2 where gb: "getBrowser cfg ejs env (t1, s) = ((t2, s2), r2)"
      by (cases "getBrowser cfg ejs env (t1, s)") auto
    have c2: "pipeline (calls s2) = pipeline (calls s)"
      using getBrowser_pipeline[OF gb] .
    show ?thesis
    proof (cases r2)
      case (Inl e)
      with assms rt Inr gb c2 show ?thesis by (auto simp: render_def)
    next
      case Inr2: (Inr u)
      obtain s3 r3 where aq: "acquirePage cfg (e_create env) s2 = (s3, r3)"
        by (cases "acquirePage cfg (e_create env) s2")
      have c3: "pipeline (calls s3) = pipeline (calls s)"
        using acquirePage_pipeline[OF aq] c2 by simp
      show ?thesis
      proof (cases r3)
        case (Raised e)
        with assms rt Inr gb Inr2 aq c3 show ?thesis by (auto simp: render_def)
      next
        case Pending
        with assms rt Inr gb Inr2 aq c3 show ?thesis by (auto simp: render_def)
      next
        case (Returned p)
        obtain s4 r4 where tr: "render_try env html ow p s3 = (s4, r4)"
          by (cases "render_try env html ow p s3")
        obtain s5 r5 where rl: "releasePage cfg (e_release env) p s4 = (s5, r5)"
          by (cases "releasePage cfg (e_release env) p s4")
        have c5: "pipeline (calls s5) = pipeline (calls s4)"
          using releasePage_pipeline[OF rl] .
        from assms rt Inr gb Inr2 aq Returned tr rl
        have e: "t' = t2" "s' = s5"
           "out = (case r5 of Inl e' \<Rightarrow> Raised e'
                    | Inr _ \<Rightarrow> (case r4 of Inl e \<Rightarrow> Raised e | Inr png \<Rightarrow> Returned png))"
          by (auto simp: render_def split: sum.splits)
        show ?thesis
          using rt Inr gb Inr2 aq Returned tr rl c3 c5 e by auto
      qed
    qed
  qed
qed

lemma render_Returned:
  assumes "render cfg ejs env name d ow (t, s) = ((t', s'), Returned png)"
  shows "\<exists>p html W H. e_measure env = Inr (W, H) \<and> e_screenshot env = Inr png
           \<and> pipeline (calls s') = pipeline (calls s) @
               [SetContent p html ''domcontentloaded'', WaitForFunction p 3000,
                EvaluateBoundingBox p, Screenshot p (ShotOpts ''png'' (Clip 0 0 W H) False)]"
proof -
  from render_stages[OF assms] show ?thesis
  proof (elim disjE exE conjE)
    fix e assume "Returned png = Raised e"
    then show ?thesis by simp
  next
    assume "Returned png = Pending"
    then show ?thesis by simp
  next
    fix t1 html s2 s3 p s4 r4 r5
    assume tr: "render_try env html ow p s3 = (s4, r4)"
      and c3: "pipeline (calls s3) = pipeline (calls s)"
      and c5: "pipeline (calls s') = pipeline (calls s4)"
      and out: "Returned png = (case r5 of Inl e' \<Rightarrow> Raised e'
                    | Inr _ \<Rightarrow> (case r4 of Inl e \<Rightarrow> Raised e | Inr png \<Rightarrow> Returned png))"
    from out have r4: "r4 = Inr png" by (auto split: sum.splits)
    from render_try_Inr[OF tr[unfolded r4]] c3 c5 show ?thesis by auto
  qed
qed

lemma render_waits:
  assumes "render cfg ejs env name d ow (t, s) = ((t', s'), out)"
  shows "waits (calls s') = waits (calls s) \<or> (\<exists>p. waits (calls s') = waits (calls s) @ [(p, 3000)])"
proof -
  from render_stages[OF assms] show ?thesis
  proof (elim disjE exE conjE)
    fix e assume "pipeline (calls s') = pipeline (calls s)"
    then have "waits (pipeline (calls s')) = waits (pipeline (calls s))" by simp
    then show ?thesis by (simp add: waits_pipeline)
  next
    assume "pipeline (calls s') = pipeline (calls s)"
    then have "waits (pipeline (calls s')) = waits (pipeline (calls s))" by simp
    then show ?thesis by (simp add: waits_pipeline)
  next
    fix t1 html s2 s3 p s4 r4 r5
    assume tr: "render_try env html ow p s3 = (s4, r4)"
      and c3: "pipeline (calls s3) = pipeline (calls s)"
      and c5: "pipeline (calls s') = pipeline (calls s4)"
    have w3: "waits (calls s3) = waits (calls s)"
      using arg_cong[OF c3, of waits] by (simp add: waits_pipeline)
    have w5: "waits (calls s') = waits (calls s4)"
      using arg_cong[OF c5, of waits] by (simp add: waits_pipeline)
    from render_try_waits[OF tr] w3 w5 show ?thesis by auto
  qed
qed

lemma getBrowser_wait_irrelevant:
  "getBrowser cfg ejs (env\<lparr>e_wait := w\<rparr>) ts = getBrowser cfg ejs env ts"
  by (cases ts) (auto simp: getBrowser_def Let_def split: option.splits sum.splits prod.splits)

lemma render_wait_irrelevant:
  "render cfg ejs (env\<lparr>e_wait := w\<rparr>) name d ow ts = render cfg ejs env name d ow ts"
  by (cases ts)
     (auto simp: render_def getBrowser_wait_irrelevant render_try_wait_irrelevant
           split: prod.splits sum.splits outcome.splits)

subsection \<open>Viewports\<close>

lemma createPage_vp_ok:
  "createPage ce s = (s', r) \<Longrightarrow> vp_ok s q \<Longrightarrow> vp_ok s' q"
  by (cases ce) (auto simp: createPage_def Let_def newPage_def vp_ok_def default_viewport_def)

lemma createPage_new_viewport:
  "createPage ce s = (s', Inr p) \<Longrightarrow> page_viewport s' p = default_viewport"
  by (cases ce) (auto simp: createPage_def Let_def newPage_def)

lemma createPage_new_vp_ok:
  "createPage ce s = (s', Inr p) \<Longrightarrow> vp_ok s' p"
  by (drule createPage_new_viewport) (simp add: vp_ok_def default_viewport_def)

lemma createPage_same_pool:
  "createPage ce s = (s', r) \<Longrightarrow> pagePool s' = pagePool s \<and> busyPages s' = busyPages s"
  by (cases ce) (auto simp: createPage_def Let_def newPage_def)

lemma createPages_vp:
  "createPages ces s = (s', rs) \<Longrightarrow>
     (\<forall>q. vp_ok s q \<longrightarrow> vp_ok s' q) \<and> (\<forall>p. Inr p \<in> set rs \<longrightarrow> vp_ok s' p)
     \<and> pagePool s' = pagePool s \<and> busyPages s' = busyPages s"
proof (induction ces arbitrary: s s' rs)
  case Nil
  then show ?case by simp
next
  case (Cons ce ces)
  obtain s1 r where c: "createPage ce s = (s1, r)" by (cases "createPage ce s")
  obtain s2 rs2 where cs: "createPages ces s1 = (s2, rs2)" by (cases "createPages ces s1")
  from Cons.prems c cs have e: "s' = s2" "rs = r # rs2" by auto
  from Cons.IH[OF cs] createPage_vp_ok[OF c] createPage_same_pool[OF c] e
  show ?case
    using createPage_new_vp_ok[of ce s s1] c by auto
qed

lemma promise_all_Inr:
  "promise_all rs = Inr xs \<Longrightarrow> x \<in> set xs \<Longrightarrow> Inr x \<in> set rs"
  by (induction rs arbitrary: xs rule: promise_all.induct) (auto split: sum.splits)

lemma viewports_ok_iff:
  "viewports_ok s \<longleftrightarrow>
     (\<forall>p \<in> set (pagePool s). vp_ok s p) \<and> (\<forall>p \<in> set (busyPages s). vp_ok s p)"
  by (auto simp: viewports_ok_def sessions_def)

lemma vp_ok_update [simp]:
  "vp_ok (s\<lparr>pagePool := x\<rparr>) p = vp_ok s p"
  "vp_ok (s\<lparr>busyPages := y\<rparr>) p = vp_ok s p"
  "vp_ok (s\<lparr>calls := z\<rparr>) p = vp_ok s p"
  "vp_ok (s\<lparr>browser := b\<rparr>) p = vp_ok s p"
  "vp_ok (s\<lparr>isClosed := c\<rparr>) p = vp_ok s p"
  by (simp_all add: vp_ok_def)

lemma prewarmPagePool_viewports:
  assumes "viewports_ok s" and "prewarmPagePool cfg env s = (s', r)"
  shows "viewports_ok s'"
proof -
  obtain s1 rs where c: "createPages (map env [0..<PAGE_POOL_SIZE cfg]) s = (s1, rs)"
    by (cases "createPages (map env [0..<PAGE_POOL_SIZE cfg]) s")
  note v = createPages_vp[OF c]
  have ok1: "viewports_ok s1"
    using assms(1) v by (auto simp: viewports_ok_iff)
  show ?thesis
  proof (cases "promise_all rs")
    case (Inl e)
    with assms(2) c ok1 show ?thesis by (simp add: prewarmPagePool_def)
  next
    case (Inr pages)
    with assms(2) c have s': "s' = s1\<lparr>pagePool := rev pages @ pagePool s1\<rparr>"
      by (simp add: prewarmPagePool_def)
    show ?thesis
      unfolding s'
      using ok1 v promise_all_Inr[OF Inr]
      by (auto simp: viewports_ok_iff)
  qed
qed

lemma pop_open_result:
  "pop_open c xs = (r, rest) \<Longrightarrow>
   set rest \<subseteq> set xs \<and> (\<forall>p. r = Some p \<longrightarrow> p \<in> set xs \<and> \<not> c p) \<and> (r = None \<longrightarrow> rest = [])"
  by (induction xs) (auto split: if_splits)

lemma acquirePage_viewports:
  assumes "viewports_ok s" and "acquirePage cfg ce s = (s', r)"
  shows "viewports_ok s'"
proof -
  obtain po rest where p: "pop_open (isClosed s) (pagePool s) = (po, rest)"
    by (cases "pop_open (isClosed s) (pagePool s)")
  note pr = pop_open_result[OF p]
  show ?thesis
  proof (cases po)
    case (Some q)
    with assms p pr show ?thesis
      by (auto simp: acquirePage_def viewports_ok_iff)
  next
    case None
    let ?s1 = "s\<lparr>pagePool := rest\<rparr>"
    have ok1: "viewports_ok ?s1"
      using assms(1) pr by (auto simp: viewports_ok_iff)
    obtain s2 r2 where c: "createPage ce ?s1 = (s2, r2)" by (cases "createPage ce ?s1")
    have ok2: "viewports_ok s2"
      using ok1 createPage_vp_ok[OF c] createPage_same_pool[OF c]
      by (auto simp: viewports_ok_iff)
    show ?thesis
      using assms(2) p None c ok1 ok2 createPage_new_vp_ok[of ce ?s1 s2]
      by (auto simp: acquirePage_def Let_def viewports_ok_iff split: if_splits sum.splits)
  qed
qed

lemma closePage_vp_ok [simp]: "vp_ok (closePage r p s) q = vp_ok s q"
  by (cases r) (simp_all add: closePage_def Let_def vp_ok_def)

lemma releasePage_viewports:
  assumes "viewports_ok s" and "vp_ok s p" and "releasePage cfg env p s = (s', r)"
  shows "viewports_ok s'"
proof -
  let ?s1 = "s\<lparr>busyPages := set_delete p (busyPages s)\<rparr>"
  let ?s3 = "closePage (r_close env) p (?s1\<lparr>calls := calls ?s1 @ [EvaluateClearBody p]\<rparr>)"
  have ok1: "viewports_ok ?s1"
    using assms(1) by (auto simp: viewports_ok_iff)
  have ok3: "viewports_ok ?s3"
    using assms(1) by (auto simp: viewports_ok_iff)
  obtain s4 r4 where c: "createPage (r_create env) ?s3 = (s4, r4)"
    by (cases "createPage (r_create env) ?s3")
  have ok4: "viewports_ok s4"
    using ok3 createPage_vp_ok[OF c] createPage_same_pool[OF c]
    by (auto simp: viewports_ok_iff)
  show ?thesis
  proof (cases "isClosed s p")
    case True
    with assms(3) ok1 show ?thesis by (simp add: releasePage_def Let_def)
  next
    case False
    show ?thesis
    proof (cases "r_reset env")
      case None
      with False assms show ?thesis
        by (auto simp: releasePage_def Let_def viewports_ok_iff)
    next
      case (Some e)
      with False assms(3) c ok3 ok4 createPage_new_vp_ok[of "r_create env" ?s3 s4]
      show ?thesis
        by (auto simp: releasePage_def Let_def viewports_ok_iff split: if_splits sum.splits)
    qed
  qed
qed

lemma render_try_viewport:
  "page_viewport (fst (render_try env html ow p s)) =
     (if width (page_viewport s p) \<noteq> requested_width ow \<and> e_setViewport env = None
      then (page_viewport s)(p := \<lparr>width = requested_width ow, height = 600, deviceScaleFactor = 2\<rparr>)
      else page_viewport s)"
  by (auto simp: render_try_def Let_def catch_ignore_def split: option.splits sum.splits prod.splits)

lemma render_try_vp_ok:
  "vp_ok s q \<Longrightarrow> vp_ok (fst (render_try env html ow p s)) q"
  by (simp add: vp_ok_def render_try_viewport)

lemma getBrowser_viewports:
  assumes "viewports_ok s" and "getBrowser cfg ejs env (t, s) = ((t', s'), r)"
  shows "viewports_ok s'"
proof -
  let ?s2 = "s\<lparr>calls := calls s @ [Launch], browser := True\<rparr>"
  have ok2: "viewports_ok ?s2" "viewports_ok (s\<lparr>calls := calls s @ [Launch]\<rparr>)"
    using assms(1) by (auto simp: viewports_ok_iff)
  obtain s3 r3 where pw: "prewarmPagePool cfg (e_prewarm env) ?s2 = (s3, r3)"
    by (cases "prewarmPagePool cfg (e_prewarm env) ?s2")
  note ok3 = prewarmPagePool_viewports[OF ok2(1) pw]
  show ?thesis
    using assms pw ok2 ok3
    by (auto simp: getBrowser_def Let_def split: if_splits prod.splits sum.splits option.splits)
qed

lemma render_viewports:
  assumes "viewports_ok s"
  shows "viewports_ok (snd (fst (render cfg ejs env name d ow (t, s))))"
proof -
  obtain t' s' out where r: "render cfg ejs env name d ow (t, s) = ((t', s'), out)"
    by (cases "render cfg ejs env name d ow (t, s)") auto
  obtain t1 r1 where rt: "renderTemplate cfg ejs name d t = (t1, r1)"
    by (cases "renderTemplate cfg ejs name d t")
  obtain t2 s2 r2 where gb: "getBrowser cfg ejs env (t1, s) = ((t2, s2), r2)"
    by (cases "getBrowser cfg ejs env (t1, s)") auto
  note ok2 = getBrowser_viewports[OF assms gb]
  obtain s3 r3 where aq: "acquirePage cfg (e_create env) s2 = (s3, r3)"
    by (cases "acquirePage cfg (e_create env) s2")
  note ok3 = acquirePage_viewports[OF ok2 aq]
  have "viewports_ok s'"
  proof (cases "\<exists>html p. r1 = Inr html \<and> r2 = Inr () \<and> r3 = Returned p")
    case False
    with r rt gb aq assms ok2 ok3 show ?thesis
      by (auto simp: render_def split: sum.splits outcome.splits)
  next
    case True
    then obtain html p where e: "r1 = Inr html" "r2 = Inr ()" "r3 = Returned p" by auto
    obtain s4 r4 where tr: "render_try env html ow p s3 = (s4, r4)"
      by (cases "render_try env html ow p s3")
    obtain s5 r5 where rl: "releasePage cfg (e_release env) p s4 = (s5, r5)"
      by (cases "releasePage cfg (e_release env) p s4")
    have s4: "s4 = fst (render_try env html ow p s3)" using tr by simp
    have pb: "p \<in> set (busyPages s3)"
      using acquirePage_Returned_busy[OF aq[unfolded e(3)]] by simp
    have ok4: "viewports_ok s4"
      unfolding s4 using ok3
      by (auto simp: viewports_ok_iff intro!: render_try_vp_ok)
    have vp4: "vp_ok s4 p"
      unfolding s4 using ok3 pb by (auto simp: viewports_ok_iff intro!: render_try_vp_ok)
    from releasePage_viewports[OF ok4 vp4 rl] r rt gb aq e tr rl show ?thesis
      by (auto simp: render_def split: sum.splits)
  qed
  with r show ?thesis by simp
qed

lemma renders_viewports:
  "viewports_ok (snd ts) \<Longrightarrow> viewports_ok (snd (renders cfg ejs reqs ts))"
proof (induction reqs arbitrary: ts)
  case Nil
  then show ?case by simp
next
  case (Cons rq reqs)
  obtain env name d ow where rq: "rq = (env, name, d, ow)" by (cases rq) auto
  obtain t s where ts: "ts = (t, s)" by (cases ts)
  from Cons.prems ts have "viewports_ok (snd (fst (render cfg ejs env name d ow (t, s))))"
    by (simp add: render_viewports)
  from Cons.IH[OF this] rq ts show ?case by simp
qed

lemma viewports_ok_init: "viewports_ok init_pstate"
  by (simp add: viewports_ok_def sessions_def init_pstate_def)

subsection \<open>Capture, readiness wait, viewport\<close>

text \<open>
  C7. When \<open>render\<close> returns a bitmap and the measurement reported \<open>(W, H)\<close>, the one capture
  command this call sent is \<open>page.screenshot\<close> with \<open>type: 'png'\<close>, the clip
  \<open>{x: 0, y: 0, width: W, height: H}\<close> and \<open>omitBackground: false\<close>, whatever the viewport of
  the page, and the bitmap returned is the one that command produced.
\<close>

theorem capture_clipped_to_content:
  assumes "render cfg ejs env name d ow (t, s) = ((t', s'), Returned png)"
      and "e_measure env = Inr (W, H)"
  shows "e_screenshot env = Inr png
       \<and> (\<exists>p. screenshots (calls s') =
                screenshots (calls s) @ [(p, ShotOpts ''png'' (Clip 0 0 W H) False)])"
proof -
  from render_Returned[OF assms(1)] assms(2) obtain p html where
    sc: "e_screenshot env = Inr png" and
    pl: "pipeline (calls s') = pipeline (calls s) @
               [SetContent p html ''domcontentloaded'', WaitForFunction p 3000,
                EvaluateBoundingBox p, Screenshot p (ShotOpts ''png'' (Clip 0 0 W H) False)]"
    by auto
  from arg_cong[OF pl, of screenshots]
  have "screenshots (calls s') = screenshots (calls s) @ [(p, ShotOpts ''png'' (Clip 0 0 W H) False)]"
    by (simp add: screenshots_pipeline)
  with sc show ?thesis by blast
qed

theorem capture_clipped_to_content_witness:
  "render CONFIG test_ejs all_ok ''card'' ''x'' None (card_v1, init_pstate)
     = ((fst (fst first_render), snd (fst first_render)), Returned ''PNG'')
   \<and> e_measure all_ok = Inr (800, 420)
   \<and> e_screenshot all_ok = Inr ''PNG''
   \<and> (\<exists>p. screenshots (calls (snd (fst first_render))) =
            screenshots (calls init_pstate) @ [(p, ShotOpts ''png'' (Clip 0 0 800 420) False)])"
proof -
  have r: "snd first_render = Returned ''PNG''"
    by code_simp
  have h1: "render CONFIG test_ejs all_ok ''card'' ''x'' None (card_v1, init_pstate)
     = ((fst (fst first_render), snd (fst first_render)), Returned ''PNG'')"
    using r by (simp add: first_render_def prod_eq_iff)
  have h2: "e_measure all_ok = Inr (800, 420)"
    by (simp add: all_ok_def)
  show ?thesis
    using capture_clipped_to_content [OF h1 h2] h1 h2 by simp
qed

text \<open>
  C9. \<open>createPage\<close> gives a new page the viewport \<open>(800, 600, 2)\<close>. The \<open>try\<close> block of
  \<open>render\<close> changes the viewport of its page only when the current width differs from
  the requested one (and \<open>setViewport\<close> succeeds), to that width with height 600 and
  scale factor 2. So \<open>render\<close> keeps every session of the pool, idle or busy, at height 600
  and scale factor 2, and so is every state reached by calls of \<open>render\<close> from the start.
\<close>

theorem session_viewports_600_by_2:
  "(snd (createPage ce s) = Inr p \<longrightarrow>
      page_viewport (fst (createPage ce s)) p = \<lparr>width = 800, height = 600, deviceScaleFactor = 2\<rparr>)
   \<and> page_viewport (fst (render_try env html ow q s)) =
       (if width (page_viewport s q) \<noteq> requested_width ow \<and> e_setViewport env = None
        then (page_viewport s)
               (q := \<lparr>width = requested_width ow, height = 600, deviceScaleFactor = 2\<rparr>)
        else page_viewport s)
   \<and> (viewports_ok s \<longrightarrow> viewports_ok (snd (fst (render cfg ejs env name d ow (t, s)))))
   \<and> viewports_ok (snd (renders cfg ejs reqs (t, init_pstate)))"
proof -
  have a: "snd (createPage ce s) = Inr p \<longrightarrow>
      page_viewport (fst (createPage ce s)) p = \<lparr>width = 800, height = 600, deviceScaleFactor = 2\<rparr>"
    using createPage_new_viewport[of ce s "fst (createPage ce s)" p]
    by (auto simp: default_viewport_def prod_eq_iff)
  have d: "viewports_ok (snd (renders cfg ejs reqs (t, init_pstate)))"
    using renders_viewports[of "(t, init_pstate)"] by (simp add: viewports_ok_init)
  have c: "viewports_ok s \<longrightarrow> viewports_ok (snd (fst (render cfg ejs env name d ow (t, s))))"
    by (simp add: render_viewports)
  show ?thesis
    using a c d render_try_viewport[of env html ow q s]
    by simp
qed

theorem session_viewports_600_by_2_witness:
  "snd (createPage CreateSucceeds one_held) = Inr 16
   \<and> page_viewport (fst (createPage CreateSucceeds one_held)) 16
       = \<lparr>width = 800, height = 600, deviceScaleFactor = 2\<rparr>
   \<and> viewports_ok one_held
   \<and> viewports_ok (snd (fst (render CONFIG test_ejs all_ok ''card'' ''x'' (Some 420) (card_v1, one_held))))
   \<and> viewports_ok after_narrow
   \<and> 15 \<in> sessions after_narrow
   \<and> page_viewport after_narrow 15 = \<lparr>width = 420, height = 600, deviceScaleFactor = 2\<rparr>"
proof -
  have h1: "snd (createPage CreateSucceeds one_held) = Inr 16"
    by code_simp
  have h2: "viewports_ok one_held"
    by code_simp
  have m: "15 \<in> sessions after_narrow"
    by code_simp
  have v: "page_viewport after_narrow 15 = \<lparr>width = 420, height = 600, deviceScaleFactor = 2\<rparr>"
    by code_simp
  show ?thesis
    using session_viewports_600_by_2
      [where ce = CreateSucceeds and s = one_held and p = 16 and cfg = CONFIG and ejs = test_ejs
         and env = all_ok and name = "''card''" and d = "''x''" and ow = "Some 420"
         and t = card_v1 and reqs = "[narrow_request]" and html = "''old:x''" and q = 15]
      h1 h2 m v
    by (simp add: after_narrow_def)
qed

section \<open>Properties of interleaved calls\<close>

lemma pop_open_split:
  "pop_open c xs = (Some p, rest) \<Longrightarrow> \<exists>pre. xs = pre @ p # rest \<and> \<not> c p"
proof (induction xs)
  case Nil
  then show ?case by simp
next
  case (Cons x xs)
  show ?case
  proof (cases "c x")
    case True
    with Cons.prems have "pop_open c xs = (Some p, rest)" by simp
    from Cons.IH[OF this] obtain pre where "xs = pre @ p # rest" "\<not> c p" by blast
    then have "x # xs = (x # pre) @ p # rest \<and> \<not> c p" by simp
    then show ?thesis by blast
  next
    case False
    with Cons.prems have "x = p" "xs = rest" by simp_all
    with False have "x # xs = [] @ p # rest \<and> \<not> c p" by simp
    then show ?thesis by blast
  qed
qed

lemma pop_open_None: "pop_open c xs = (None, rest) \<Longrightarrow> rest = []"
  by (induction xs) (auto split: if_splits)

lemma acquire_sync_Got:
  assumes "acquire_sync cfg ps = (ps', Got p)"
  shows "(\<exists>pre. pagePool ps = pre @ p # pagePool ps') \<and> \<not> isClosed ps p
         \<and> nextPage ps' = nextPage ps \<and> isClosed ps' = isClosed ps"
proof -
  obtain r rest where po: "pop_open (isClosed ps) (pagePool ps) = (r, rest)"
    by (cases "pop_open (isClosed ps) (pagePool ps)")
  from assms po have r: "r = Some p" and ps': "ps' = ps\<lparr>pagePool := rest, busyPages := set_add p (busyPages ps)\<rparr>"
    by (auto simp: acquire_sync_def Let_def split: option.splits if_splits)
  from pop_open_split[OF po[unfolded r]] ps' show ?thesis by auto
qed

lemma acquire_sync_not_Got:
  assumes "acquire_sync cfg ps = (ps', r)" and "r = MustCreate \<or> r = MustWait"
  shows "pagePool ps' = [] \<and> nextPage ps' = nextPage ps \<and> isClosed ps' = isClosed ps"
proof -
  obtain q rest where po: "pop_open (isClosed ps) (pagePool ps) = (q, rest)"
    by (cases "pop_open (isClosed ps) (pagePool ps)")
  from assms po have q: "q = None" and ps': "ps' = ps\<lparr>pagePool := rest\<rparr>"
    by (auto simp: acquire_sync_def Let_def split: option.splits if_splits)
  from pop_open_None[OF po[unfolded q]] ps' show ?thesis by simp
qed

lemma createPage_fresh:
  assumes "createPage ce ps = (ps', r)"
  shows "nextPage ps \<le> nextPage ps' \<and> pagePool ps' = pagePool ps
       \<and> (\<forall>q. q < nextPage ps \<longrightarrow> isClosed ps' q = isClosed ps q)
       \<and> (\<forall>p. r = Inr p \<longrightarrow> p = nextPage ps \<and> p < nextPage ps' \<and> \<not> isClosed ps' p)"
  using assms by (cases ce) (auto simp: createPage_def Let_def newPage_def)

text \<open>What a step does to the pool and to the tasks, event by event.\<close>

lemma step_dropped:
  assumes "dropped S s" and "step cfg ev s = Some s'"
  shows "dropped S s'"
proof (cases ev)
  case (CallAcquire tid)
  obtain ps r where a: "acquire_sync cfg (pool s) = (ps, r)" by (cases "acquire_sync cfg (pool s)")
  from assms(2) CallAcquire a have s': "s' = s\<lparr>pool := ps, tasks := (tasks s)(tid \<mapsto> acq_task r)\<rparr>"
    by (auto split: option.splits)
  show ?thesis
  proof (cases r)
    case (Got p)
    from acquire_sync_Got[OF a[unfolded Got]] assms(1) s' Got show ?thesis
      by (auto simp: dropped_def)
  next
    case MustCreate
    with acquire_sync_not_Got[OF a] assms(1) s' show ?thesis
      by (auto simp: dropped_def)
  next
    case MustWait
    with acquire_sync_not_Got[OF a] assms(1) s' show ?thesis
      by (auto simp: dropped_def)
  qed
next
  case (CreateSettles tid ce)
  obtain ps r where c: "createPage ce (pool s) = (ps, r)" by (cases "createPage ce (pool s)")
  from createPage_fresh[OF c] assms CreateSettles c show ?thesis
    by (auto simp: dropped_def split: option.splits task.splits sum.splits if_splits)
next
  case (TimerFires tid)
  show ?thesis
  proof (cases "pagePool (pool s)")
    case Nil
    with assms TimerFires show ?thesis
      by (auto simp: dropped_def split: option.splits task.splits)
  next
    case (Cons p rest)
    let ?ps = "(pool s)\<lparr>pagePool := rest\<rparr>"
    obtain ps' r where a: "acquire_sync cfg ?ps = (ps', r)" by (cases "acquire_sync cfg ?ps")
    show ?thesis
    proof (cases r)
      case (Got q)
      from acquire_sync_Got[OF a[unfolded Got]] assms TimerFires Cons a Got show ?thesis
        by (auto simp: dropped_def Let_def split: option.splits task.splits if_splits)
    next
      case MustCreate
      with acquire_sync_not_Got[OF a] assms TimerFires Cons a show ?thesis
        by (auto simp: dropped_def Let_def split: option.splits task.splits if_splits)
    next
      case MustWait
      with acquire_sync_not_Got[OF a] assms TimerFires Cons a show ?thesis
        by (auto simp: dropped_def Let_def split: option.splits task.splits if_splits)
    qed
  qed
next
  case (CallRelease tid)
  with assms show ?thesis
    by (auto simp: dropped_def Let_def split: option.splits task.splits if_splits)
next
  case (ResetSettles tid r)
  with assms show ?thesis
    by (auto simp: dropped_def Let_def split: option.splits task.splits if_splits)
next
  case (CloseSettles tid r)
  with assms show ?thesis
    by (auto simp: dropped_def Let_def split: option.splits task.splits if_splits)
next
  case (ReplaceSettles tid ce)
  obtain ps r where c: "createPage ce (pool s) = (ps, r)" by (cases "createPage ce (pool s)")
  from createPage_fresh[OF c] assms ReplaceSettles c show ?thesis
    by (auto simp: dropped_def split: option.splits task.splits sum.splits if_splits)
next
  case (PageCloses p)
  with assms show ?thesis
    by (auto simp: dropped_def)
qed

lemma run_dropped:
  "dropped S s \<Longrightarrow> run cfg evs s = Some s' \<Longrightarrow> dropped S s'"
proof (induction evs arbitrary: s)
  case Nil
  then show ?case by simp
next
  case (Cons ev evs)
  then show ?case
    by (auto split: option.splits dest: step_dropped)
qed

lemma owns_upd:
  "owns (s\<lparr>pool := ps, tasks := (tasks s)(tid := X)\<rparr>) t p =
     (if t = tid then (\<exists>x. X = Some x \<and> page_of x = Some p) else owns s t p)"
  by (simp add: owns_def)

text \<open>
  One step changes the task of one caller and the pool. The pages of the new pool are
  old pool pages, new pages, or the page the caller owned; so is the page the caller owns
  afterwards, which is not in the new pool.
\<close>

lemma exclusive_update:
  assumes ex: "exclusive s"
    and s': "s' = s\<lparr>pool := ps, tasks := (tasks s)(tid := X)\<rparr>"
    and d: "distinct (pagePool ps)"
    and n: "nextPage (pool s) \<le> nextPage ps"
    and pl: "\<And>p. p \<in> set (pagePool ps) \<Longrightarrow>
               p < nextPage ps \<and> (p \<in> set (pagePool (pool s)) \<or> nextPage (pool s) \<le> p \<or> owns s tid p)"
    and own: "\<And>x p. X = Some x \<Longrightarrow> page_of x = Some p \<Longrightarrow>
               p \<notin> set (pagePool ps) \<and> p < nextPage ps
               \<and> (p \<in> set (pagePool (pool s)) \<or> nextPage (pool s) \<le> p \<or> owns s tid p)"
  shows "exclusive s'"
proof -
  from ex have o1: "\<And>t p. owns s t p \<Longrightarrow> p < nextPage (pool s) \<and> p \<notin> set (pagePool (pool s))"
    and o2: "\<And>t t' p. owns s t p \<Longrightarrow> owns s t' p \<Longrightarrow> t = t'"
    by (auto simp: exclusive_def)
  have other: "\<And>t p. t \<noteq> tid \<Longrightarrow> owns s t p \<Longrightarrow> p \<notin> set (pagePool ps)"
  proof
    fix t p assume t: "t \<noteq> tid" and ow: "owns s t p" and "p \<in> set (pagePool ps)"
    from pl[OF this(3)] have "p \<in> set (pagePool (pool s)) \<or> nextPage (pool s) \<le> p \<or> owns s tid p"
      by simp
    with o1[OF ow] o2[OF ow] t show False by auto
  qed
  have i3: "\<And>t p. owns s' t p \<Longrightarrow> p < nextPage ps \<and> p \<notin> set (pagePool ps)"
  proof -
    fix t p assume ow: "owns s' t p"
    show "p < nextPage ps \<and> p \<notin> set (pagePool ps)"
    proof (cases "t = tid")
      case True
      with ow s' obtain x where "X = Some x" "page_of x = Some p" by (auto simp: owns_upd)
      from own[OF this] show ?thesis by simp
    next
      case False
      with ow s' have "owns s t p" by (simp add: owns_upd)
      with o1[OF this] other[OF False this] n show ?thesis by simp
    qed
  qed
  have clash: "\<And>t x p. t \<noteq> tid \<Longrightarrow> owns s t p \<Longrightarrow> X = Some x \<Longrightarrow> page_of x = Some p \<Longrightarrow> False"
  proof -
    fix t x p assume t: "t \<noteq> tid" and ow: "owns s t p" and x: "X = Some x" "page_of x = Some p"
    from own[OF x] have "p \<in> set (pagePool (pool s)) \<or> nextPage (pool s) \<le> p \<or> owns s tid p"
      by simp
    with o1[OF ow] o2[OF ow] t show False by auto
  qed
  have i4: "\<And>t t' p. owns s' t p \<Longrightarrow> owns s' t' p \<Longrightarrow> t = t'"
  proof -
    fix t t' p assume a: "owns s' t p" and b: "owns s' t' p"
    show "t = t'"
    proof (cases "t = tid")
      case True
      show ?thesis
      proof (cases "t' = tid")
        case True
        with \<open>t = tid\<close> show ?thesis by simp
      next
        case False
        with a b True s' clash[OF False] show ?thesis by (auto simp: owns_upd)
      qed
    next
      case False
      show ?thesis
      proof (cases "t' = tid")
        case True
        with a b False s' clash[OF False] show ?thesis by (auto simp: owns_upd)
      next
        case F2: False
        with a b False s' o2 show ?thesis by (auto simp: owns_upd)
      qed
    qed
  qed
  have i2: "\<forall>p \<in> set (pagePool ps). p < nextPage ps"
    using pl by blast
  have ps: "pool s' = ps" using s' by simp
  show ?thesis
    unfolding exclusive_def ps
    using d i2 i3 i4 by blast
qed

lemma exclusiveD:
  assumes "exclusive s"
  shows "distinct (pagePool (pool s))"
    and "\<forall>p \<in> set (pagePool (pool s)). p < nextPage (pool s)"
    and "\<And>t p. owns s t p \<Longrightarrow> p < nextPage (pool s) \<and> p \<notin> set (pagePool (pool s))"
    and "\<And>t t' p. owns s t p \<Longrightarrow> owns s t' p \<Longrightarrow> t = t'"
  using assms by (auto simp: exclusive_def)

lemma exclusive_same_pages:
  "exclusive s \<Longrightarrow> tasks s' = tasks s \<Longrightarrow> pagePool (pool s') = pagePool (pool s) \<Longrightarrow>
   nextPage (pool s') = nextPage (pool s) \<Longrightarrow> exclusive s'"
  by (simp add: exclusive_def owns_def)

text \<open>Lines 133-149 run by a caller that owns no page, on the pool or on what is left of it.\<close>

lemma exclusive_acquire_sync:
  assumes ex: "exclusive s"
    and rest: "pagePool (pool s) = pre0 @ pagePool ps0" "nextPage ps0 = nextPage (pool s)"
    and a: "acquire_sync cfg ps0 = (ps, r)"
    and s': "s' = s\<lparr>pool := ps, tasks := (tasks s)(tid := Some (acq_task r))\<rparr>"
  shows "exclusive s'"
proof (cases r)
  case (Got p)
  from acquire_sync_Got[OF a[unfolded Got]] obtain pre where
    pp: "pagePool ps0 = pre @ p # pagePool ps" and np: "nextPage ps = nextPage ps0"
    by auto
  from rest pp have old: "pagePool (pool s) = pre0 @ pre @ p # pagePool ps" by simp
  from exclusiveD(1)[OF ex] old have d: "distinct (pagePool ps)" "p \<notin> set (pagePool ps)"
    by auto
  show ?thesis
  proof (rule exclusive_update[OF ex s'])
    show "distinct (pagePool ps)" by (rule d)
    show "nextPage (pool s) \<le> nextPage ps" using np rest by simp
    show "p' < nextPage ps \<and>
          (p' \<in> set (pagePool (pool s)) \<or> nextPage (pool s) \<le> p' \<or> owns s tid p')"
      if "p' \<in> set (pagePool ps)" for p'
      using that exclusiveD(2)[OF ex] old np rest by auto
    show "q \<notin> set (pagePool ps) \<and> q < nextPage ps \<and>
          (q \<in> set (pagePool (pool s)) \<or> nextPage (pool s) \<le> q \<or> owns s tid q)"
      if "Some (acq_task r) = Some x" "page_of x = Some q" for x q
      using that Got d exclusiveD(2)[OF ex] old np rest by auto
  qed
next
  case MustCreate
  with acquire_sync_not_Got[OF a] have e: "pagePool ps = []" "nextPage ps = nextPage ps0" by auto
  show ?thesis
    by (rule exclusive_update[OF ex s']) (use e rest MustCreate in auto)
next
  case MustWait
  with acquire_sync_not_Got[OF a] have e: "pagePool ps = []" "nextPage ps = nextPage ps0" by auto
  show ?thesis
    by (rule exclusive_update[OF ex s']) (use e rest MustWait in auto)
qed

lemma step_exclusive:
  assumes ex: "exclusive s" and st: "step cfg ev s = Some s'"
  shows "exclusive s'"
proof (cases ev)
  case (CallAcquire tid)
  obtain ps r where a: "acquire_sync cfg (pool s) = (ps, r)" by (cases "acquire_sync cfg (pool s)")
  from st CallAcquire a have s': "s' = s\<lparr>pool := ps, tasks := (tasks s)(tid := Some (acq_task r))\<rparr>"
    by (auto split: option.splits)
  show ?thesis
    by (rule exclusive_acquire_sync[OF ex _ _ a s', of "[]"]) simp_all
next
  case (CreateSettles tid ce)
  obtain ps r where c: "createPage ce (pool s) = (ps, r)" by (cases "createPage ce (pool s)")
  note f = createPage_fresh[OF c]
  from st CreateSettles have t: "tasks s tid = Some AcqCreating"
    by (auto split: option.splits task.splits)
  show ?thesis
  proof (cases r)
    case (Inl e)
    with st CreateSettles t c have s': "s' = s\<lparr>pool := ps, tasks := (tasks s)(tid := None)\<rparr>"
      by simp
    show ?thesis
      by (rule exclusive_update[OF ex s'])
         (use f exclusiveD(1,2)[OF ex] in \<open>auto simp: less_le_trans\<close>)
  next
    case (Inr p)
    with st CreateSettles t c
    have s': "s' = s\<lparr>pool := ps\<lparr>busyPages := set_add p (busyPages ps)\<rparr>,
                     tasks := (tasks s)(tid := Some (Holding p))\<rparr>"
      by simp
    from f Inr have p: "p = nextPage (pool s)" "p < nextPage ps" by auto
    show ?thesis
      by (rule exclusive_update[OF ex s'])
         (use f p exclusiveD(1,2)[OF ex] in \<open>auto simp: less_le_trans\<close>)
  qed
next
  case (TimerFires tid)
  from st TimerFires have t: "tasks s tid = Some AcqPolling"
    by (auto split: option.splits task.splits)
  show ?thesis
  proof (cases "pagePool (pool s)")
    case Nil
    with st TimerFires t have "s' = s" by simp
    with ex show ?thesis by simp
  next
    case (Cons p rest)
    let ?ps = "(pool s)\<lparr>pagePool := rest\<rparr>"
    show ?thesis
    proof (cases "isClosed (pool s) p")
      case False
      with st TimerFires Cons t
      have s': "s' = s\<lparr>pool := ?ps\<lparr>busyPages := set_add p (busyPages ?ps)\<rparr>,
                       tasks := (tasks s)(tid := Some (Holding p))\<rparr>"
        by (simp add: Let_def)
      show ?thesis
        by (rule exclusive_update[OF ex s'])
           (use Cons exclusiveD(1,2)[OF ex] in auto)
    next
      case True
      obtain ps' r where a: "acquire_sync cfg ?ps = (ps', r)" by (cases "acquire_sync cfg ?ps")
      from True st TimerFires Cons t a
      have s': "s' = s\<lparr>pool := ps', tasks := (tasks s)(tid := Some (acq_task r))\<rparr>"
        by (simp add: Let_def)
      show ?thesis
        by (rule exclusive_acquire_sync[OF ex _ _ a s', of "[p]"]) (simp_all add: Cons)
    qed
  qed
next
  case (CallRelease tid)
  from st CallRelease obtain p where t: "tasks s tid = Some (Holding p)"
    by (auto split: option.splits task.splits)
  then have ow: "owns s tid p" by (simp add: owns_def)
  let ?ps = "(pool s)\<lparr>busyPages := set_delete p (busyPages (pool s))\<rparr>"
  show ?thesis
  proof (cases "isClosed (pool s) p")
    case True
    with st CallRelease t have s': "s' = s\<lparr>pool := ?ps, tasks := (tasks s)(tid := None)\<rparr>"
      by (simp add: Let_def)
    show ?thesis
      by (rule exclusive_update[OF ex s']) (use exclusiveD(1,2)[OF ex] in auto)
  next
    case False
    with st CallRelease t
    have s': "s' = s\<lparr>pool := ?ps\<lparr>calls := calls ?ps @ [EvaluateClearBody p]\<rparr>,
                     tasks := (tasks s)(tid := Some (RelResetting p))\<rparr>"
      by (simp add: Let_def)
    show ?thesis
      by (rule exclusive_update[OF ex s'])
         (use ow exclusiveD(1,2)[OF ex] exclusiveD(3)[OF ex ow] in auto)
  qed
next
  case (ResetSettles tid r)
  from st ResetSettles obtain p where t: "tasks s tid = Some (RelResetting p)"
    by (auto split: option.splits task.splits)
  then have ow: "owns s tid p" by (simp add: owns_def)
  show ?thesis
  proof (cases r)
    case None
    with st ResetSettles t
    have s': "s' = s\<lparr>pool := (pool s)\<lparr>pagePool := p # pagePool (pool s)\<rparr>,
                     tasks := (tasks s)(tid := None)\<rparr>"
      by simp
    show ?thesis
      by (rule exclusive_update[OF ex s'])
         (use ow exclusiveD(1,2)[OF ex] exclusiveD(3)[OF ex ow] in auto)
  next
    case (Some e)
    with st ResetSettles t
    have s': "s' = s\<lparr>pool := (pool s)\<lparr>calls := calls (pool s) @ [ClosePage p]\<rparr>,
                     tasks := (tasks s)(tid := Some (RelClosing p))\<rparr>"
      by simp
    show ?thesis
      by (rule exclusive_update[OF ex s']) (use exclusiveD(1,2)[OF ex] in auto)
  qed
next
  case (CloseSettles tid r)
  from st CloseSettles obtain p where t: "tasks s tid = Some (RelClosing p)"
    by (auto split: option.splits task.splits)
  let ?ps = "(case r of None \<Rightarrow> (pool s)\<lparr>isClosed := (isClosed (pool s))(p := True)\<rparr>
             | Some e \<Rightarrow> pool s)"
  have pp: "pagePool ?ps = pagePool (pool s)" "nextPage ?ps = nextPage (pool s)"
    by (cases r; simp)+
  from st CloseSettles t obtain X where
    s': "s' = s\<lparr>pool := ?ps, tasks := (tasks s)(tid := X)\<rparr>" and
    X: "X = None \<or> X = Some RelReplacing"
    by (auto simp: Let_def split: if_splits)
  show ?thesis
    by (rule exclusive_update[OF ex s']) (use X pp exclusiveD(1,2)[OF ex] in auto)
next
  case (ReplaceSettles tid ce)
  obtain ps r where c: "createPage ce (pool s) = (ps, r)" by (cases "createPage ce (pool s)")
  note f = createPage_fresh[OF c]
  from st ReplaceSettles have t: "tasks s tid = Some RelReplacing"
    by (auto split: option.splits task.splits)
  show ?thesis
  proof (cases r)
    case (Inl e)
    with st ReplaceSettles t c have s': "s' = s\<lparr>pool := ps, tasks := (tasks s)(tid := None)\<rparr>"
      by simp
    show ?thesis
      by (rule exclusive_update[OF ex s'])
         (use f exclusiveD(1,2)[OF ex] in \<open>auto simp: less_le_trans\<close>)
  next
    case (Inr q)
    with st ReplaceSettles t c
    have s': "s' = s\<lparr>pool := ps\<lparr>pagePool := q # pagePool ps\<rparr>,
                     tasks := (tasks s)(tid := None)\<rparr>"
      by simp
    from f Inr have q: "q = nextPage (pool s)" "q < nextPage ps" by auto
    show ?thesis
      by (rule exclusive_update[OF ex s'])
         (use f q exclusiveD(1,2)[OF ex] in \<open>auto simp: less_le_trans\<close>)
  qed
next
  case (PageCloses p)
  with st have s': "s' = s\<lparr>pool := (pool s)\<lparr>isClosed := (isClosed (pool s))(p := True)\<rparr>\<rparr>"
    by simp
  show ?thesis
    by (rule exclusive_same_pages[OF ex]) (simp_all add: s')
qed

lemma run_exclusive:
  "exclusive s \<Longrightarrow> run cfg evs s = Some s' \<Longrightarrow> exclusive s'"
proof (induction evs arbitrary: s)
  case Nil
  then show ?case by simp
next
  case (Cons ev evs)
  then show ?case
    by (auto split: option.splits dest: step_exclusive)
qed

lemma createPages_fresh:
  "createPages ces s = (s', rs) \<Longrightarrow> promise_all rs = Inr pages \<Longrightarrow>
   distinct pages \<and> (\<forall>p \<in> set pages. nextPage s \<le> p \<and> p < nextPage s')
   \<and> nextPage s \<le> nextPage s' \<and> pagePool s' = pagePool s"
proof (induction ces arbitrary: s s' rs pages)
  case Nil
  then show ?case by auto
next
  case (Cons ce ces)
  obtain s1 r where c: "createPage ce s = (s1, r)" by (cases "createPage ce s")
  obtain s2 rs2 where cs: "createPages ces s1 = (s2, rs2)" by (cases "createPages ces s1")
  from Cons.prems(1) c cs have e: "s' = s2" "rs = r # rs2" by auto
  from Cons.prems(2) e obtain p ps where
    r: "r = Inr p" and ps: "promise_all rs2 = Inr ps" and pages: "pages = p # ps"
    by (cases r) (auto split: sum.splits)
  note f = createPage_fresh[OF c]
  note ih = Cons.IH[OF cs ps]
  from f r have p: "p = nextPage s" "p < nextPage s1" by auto
  show ?case
    using ih f p pages e by fastforce
qed

lemma warm_exclusive: "exclusive (warm_sys cfg)"
proof -
  let ?s0 = "init_pstate\<lparr>browser := True, calls := [Launch]\<rparr>"
  obtain s1 rs where c: "createPages (map (\<lambda>_. CreateSucceeds) [0..<PAGE_POOL_SIZE cfg]) ?s0 = (s1, rs)"
    by (cases "createPages (map (\<lambda>_. CreateSucceeds) [0..<PAGE_POOL_SIZE cfg]) ?s0")
  have p0: "pagePool ?s0 = []" by (simp add: init_pstate_def)
  show ?thesis
  proof (cases "promise_all rs")
    case (Inl e)
    with c have "pool (warm_sys cfg) = s1"
      by (simp add: warm_sys_def prewarmPagePool_def)
    moreover have "pagePool s1 = []"
      using createPages_vp[OF c] p0 by simp
    ultimately show ?thesis
      by (simp add: exclusive_def owns_def warm_sys_def)
  next
    case (Inr pages)
    with c have w: "pool (warm_sys cfg) = s1\<lparr>pagePool := rev pages @ pagePool s1\<rparr>"
      by (simp add: warm_sys_def prewarmPagePool_def)
    from createPages_fresh[OF c Inr] p0 w show ?thesis
      by (auto simp: exclusive_def owns_def warm_sys_def)
  qed
qed

lemma reset_failure_drops:
  assumes ex: "exclusive s" and t: "tasks s tid = Some (RelResetting S)"
    and st: "step cfg (ResetSettles tid (Some e)) s = Some s'"
  shows "dropped S s'"
proof -
  from t have ow: "owns s tid S" by (simp add: owns_def)
  from st t have s': "s' = s\<lparr>pool := (pool s)\<lparr>calls := calls (pool s) @ [ClosePage S]\<rparr>,
                     tasks := (tasks s)(tid := Some (RelClosing S))\<rparr>"
    by simp
  have others: "tasks s t' \<noteq> Some (Holding S) \<and> tasks s t' \<noteq> Some (RelResetting S)"
    if "t' \<noteq> tid" for t'
  proof -
    have "\<not> owns s t' S" using exclusiveD(4)[OF ex _ ow, of t'] that by auto
    then show ?thesis by (auto simp: owns_def)
  qed
  show ?thesis
    using exclusiveD(3)[OF ex ow] others by (auto simp: dropped_def s')
qed

lemma step_stays_closed:
  assumes "isClosed (pool s) q \<and> q < nextPage (pool s)" and "step cfg ev s = Some s'"
  shows "isClosed (pool s') q \<and> q < nextPage (pool s')"
proof (cases ev)
  case (CallAcquire tid)
  obtain ps r where a: "acquire_sync cfg (pool s) = (ps, r)" by (cases "acquire_sync cfg (pool s)")
  have "nextPage ps = nextPage (pool s) \<and> isClosed ps = isClosed (pool s)"
    using acquire_sync_Got[of cfg "pool s" ps] acquire_sync_not_Got[of cfg "pool s" ps r] a
    by (cases r) auto
  with assms CallAcquire a show ?thesis by (auto split: option.splits)
next
  case (CreateSettles tid ce)
  obtain ps r where c: "createPage ce (pool s) = (ps, r)" by (cases "createPage ce (pool s)")
  from createPage_fresh[OF c] assms CreateSettles c show ?thesis
    by (auto split: option.splits task.splits sum.splits)
next
  case (TimerFires tid)
  show ?thesis
  proof (cases "pagePool (pool s)")
    case Nil
    with assms TimerFires show ?thesis by (auto split: option.splits task.splits)
  next
    case (Cons p rest)
    let ?ps = "(pool s)\<lparr>pagePool := rest\<rparr>"
    obtain ps' r where a: "acquire_sync cfg ?ps = (ps', r)" by (cases "acquire_sync cfg ?ps")
    have "nextPage ps' = nextPage (pool s) \<and> isClosed ps' = isClosed (pool s)"
      using acquire_sync_Got[of cfg ?ps ps'] acquire_sync_not_Got[of cfg ?ps ps' r] a
      by (cases r) auto
    with assms TimerFires Cons a show ?thesis
      by (auto simp: Let_def split: option.splits task.splits if_splits)
  qed
next
  case (CallRelease tid)
  with assms show ?thesis
    by (auto simp: Let_def split: option.splits task.splits if_splits)
next
  case (ResetSettles tid r)
  with assms show ?thesis
    by (auto simp: Let_def split: option.splits task.splits if_splits)
next
  case (CloseSettles tid r)
  with assms show ?thesis
    by (auto simp: Let_def split: option.splits task.splits if_splits)
next
  case (ReplaceSettles tid ce)
  obtain ps r where c: "createPage ce (pool s) = (ps, r)" by (cases "createPage ce (pool s)")
  from createPage_fresh[OF c] assms ReplaceSettles c show ?thesis
    by (auto split: option.splits task.splits sum.splits)
next
  case (PageCloses p)
  with assms show ?thesis by auto
qed

lemma run_stays_closed:
  "isClosed (pool s) q \<and> q < nextPage (pool s) \<Longrightarrow> run cfg evs s = Some s' \<Longrightarrow>
   isClosed (pool s') q \<and> q < nextPage (pool s')"
proof (induction evs arbitrary: s)
  case Nil
  then show ?case by simp
next
  case (Cons ev evs)
  from Cons.prems(2) obtain s1 where st: "step cfg ev s = Some s1" and r: "run cfg evs s1 = Some s'"
    by (auto split: option.splits)
  from Cons.IH[OF step_stays_closed[OF Cons.prems(1) st] r] show ?case .
qed

lemma close_settles_closes:
  assumes "tasks s t = Some (RelClosing q)" and "step cfg (CloseSettles t None) s = Some s'"
  shows "isClosed (pool s') q \<and> nextPage (pool s') = nextPage (pool s)"
  using assms by (auto simp: Let_def split: if_splits)

lemma acquired_page_is_open:
  assumes "step cfg ev s = Some s'" and "tasks s' t = Some (Holding p)"
    and "tasks s t \<noteq> Some (Holding p)"
  shows "\<not> isClosed (pool s') p"
proof (cases ev)
  case (CallAcquire tid)
  obtain ps r where a: "acquire_sync cfg (pool s) = (ps, r)" by (cases "acquire_sync cfg (pool s)")
  from assms CallAcquire a have "t = tid" "r = Got p" "pool s' = ps"
    by (cases r; auto split: option.splits if_splits)+
  with acquire_sync_Got[of cfg "pool s" ps p] a show ?thesis by auto
next
  case (CreateSettles tid ce)
  obtain ps r where c: "createPage ce (pool s) = (ps, r)" by (cases "createPage ce (pool s)")
  from createPage_fresh[OF c] assms CreateSettles c show ?thesis
    by (auto split: option.splits task.splits sum.splits if_splits)
next
  case (TimerFires tid)
  show ?thesis
  proof (cases "pagePool (pool s)")
    case Nil
    with assms TimerFires show ?thesis by (auto split: option.splits task.splits)
  next
    case (Cons q rest)
    let ?ps = "(pool s)\<lparr>pagePool := rest\<rparr>"
    obtain ps' r where a: "acquire_sync cfg ?ps = (ps', r)" by (cases "acquire_sync cfg ?ps")
    show ?thesis
    proof (cases "isClosed (pool s) q")
      case False
      with assms TimerFires Cons show ?thesis
        by (auto simp: Let_def split: option.splits task.splits if_splits)
    next
      case True
      with assms TimerFires Cons a have "t = tid" "r = Got p" "pool s' = ps'"
        by (cases r; auto simp: Let_def split: option.splits task.splits if_splits)+
      with acquire_sync_Got[of cfg ?ps ps' p] a show ?thesis by auto
    qed
  qed
next
  case (CallRelease tid)
  with assms show ?thesis
    by (auto simp: Let_def split: option.splits task.splits if_splits)
next
  case (ResetSettles tid r)
  with assms show ?thesis
    by (auto simp: Let_def split: option.splits task.splits if_splits)
next
  case (CloseSettles tid r)
  with assms show ?thesis
    by (auto simp: Let_def split: option.splits task.splits if_splits)
next
  case (ReplaceSettles tid ce)
  obtain ps r where c: "createPage ce (pool s) = (ps, r)" by (cases "createPage ce (pool s)")
  from assms ReplaceSettles c show ?thesis
    by (auto split: option.splits task.splits sum.splits if_splits)
next
  case (PageCloses q)
  with assms show ?thesis by auto
qed

text \<open>
  The two models agree: the events of one \<open>releasePage\<close>, or of one \<open>acquirePage\<close>, run
  with nothing in between, leave the pool as the function of the same name does.
\<close>

lemma releasePage_as_run:
  assumes "tasks s tid = Some (Holding p)"
  shows "run cfg (release_events cfg env tid p (pool s)) s =
           Some (s\<lparr>pool := fst (releasePage cfg env p (pool s)), tasks := (tasks s)(tid := None)\<rparr>)"
proof -
  let ?s3 = "closePage (r_close env) p
     ((pool s)\<lparr>busyPages := set_delete p (busyPages (pool s)),
               calls := calls (pool s) @ [EvaluateClearBody p]\<rparr>)"
  obtain s4 r4 where c: "createPage (r_create env) ?s3 = (s4, r4)"
    by (cases "createPage (r_create env) ?s3")
  show ?thesis
    using assms c
    by (cases "r_close env")
       (auto simp: release_events_def releasePage_def closePage_def Let_def
             split: option.splits sum.splits)
qed

lemma acquirePage_as_run:
  assumes "tasks s tid = None"
  shows "run cfg (acquire_events cfg ce tid (pool s)) s =
           Some (s\<lparr>pool := fst (acquirePage cfg ce (pool s)),
                   tasks := (tasks s)(tid := outcome_task (snd (acquirePage cfg ce (pool s))))\<rparr>)"
proof -
  obtain r rest where po: "pop_open (isClosed (pool s)) (pagePool (pool s)) = (r, rest)"
    by (cases "pop_open (isClosed (pool s)) (pagePool (pool s))")
  obtain s2 r2 where c: "createPage ce ((pool s)\<lparr>pagePool := rest\<rparr>) = (s2, r2)"
    by (cases "createPage ce ((pool s)\<lparr>pagePool := rest\<rparr>)")
  show ?thesis
    using assms po c
    by (cases r)
       (auto simp: acquire_events_def acquirePage_def acquire_sync_def Let_def
             split: option.splits sum.splits)
qed

lemma run_resume: "run CONFIG evs s \<noteq> None \<Longrightarrow> run CONFIG evs s = Some (resume evs s)"
  by (auto simp: resume_def)

lemma step_resume: "step CONFIG ev s \<noteq> None \<Longrightarrow> step CONFIG ev s = Some (resume [ev] s)"
  by (auto simp: resume_def)

text \<open>
  C5. The claim: a page whose reset fails is closed during that release and never acquired
  again. The first part fails on the code: \<open>page.close()\<close> of line 185 may raise, the empty
  \<open>catch\<close> of line 186 swallows the error, and the page is dropped without being closed.
\<close>

theorem close_failure_leaves_page_open:
  "isClosed (fst (releasePage CONFIG reset_and_close_fail 15 one_held)) 15 = False"
  by code_simp

text \<open>
  C5 as the code has it, for every interleaving of calls from a state in which no page is
  held twice (\<open>exclusive\<close>; the warm pool is one, and every step keeps it). When the reset
  of page \<open>S\<close> fails, \<open>S\<close> is never in \<open>pagePool\<close> again and no task ever holds it again: no
  \<open>acquirePage\<close> returns it. When the \<open>close\<close> of a page succeeds, the page is closed in every
  later state. And whenever \<open>acquirePage\<close> hands a page to a task, that page is open: the
  closed pages found in the pool are skipped.
\<close>

theorem failed_reset_page_never_reissued:
  "(exclusive si \<and> run cfg pre si = Some sr \<and> tasks sr tid = Some (RelResetting S)
      \<and> run cfg (ResetSettles tid (Some e) # post) sr = Some sf \<longrightarrow>
        S \<notin> set (pagePool (pool sf)) \<and> (\<forall>t. tasks sf t \<noteq> Some (Holding S)))
   \<and> (tasks sc tc = Some (RelClosing q) \<and> q < nextPage (pool sc)
      \<and> run cfg (CloseSettles tc None # evs) sc = Some sd \<longrightarrow> isClosed (pool sd) q)
   \<and> (step cfg ev sb = Some se \<and> tasks se tb = Some (Holding p)
      \<and> tasks sb tb \<noteq> Some (Holding p) \<longrightarrow> \<not> isClosed (pool se) p)"
proof (intro conjI impI)
  assume a: "exclusive si \<and> run cfg pre si = Some sr \<and> tasks sr tid = Some (RelResetting S)
      \<and> run cfg (ResetSettles tid (Some e) # post) sr = Some sf"
  then have ex: "exclusive sr" using run_exclusive by blast
  from a obtain sm where st: "step cfg (ResetSettles tid (Some e)) sr = Some sm"
    and r: "run cfg post sm = Some sf"
    by (auto split: option.splits)
  from a have t: "tasks sr tid = Some (RelResetting S)" by simp
  from run_dropped[OF reset_failure_drops[OF ex t st] r]
  show "S \<notin> set (pagePool (pool sf))" and "\<forall>t. tasks sf t \<noteq> Some (Holding S)"
    by (auto simp: dropped_def)
next
  assume a: "tasks sc tc = Some (RelClosing q) \<and> q < nextPage (pool sc)
      \<and> run cfg (CloseSettles tc None # evs) sc = Some sd"
  then obtain sr where st: "step cfg (CloseSettles tc None) sc = Some sr"
    and r: "run cfg evs sr = Some sd"
    by (auto split: option.splits)
  from close_settles_closes[OF _ st] a have "isClosed (pool sr) q \<and> q < nextPage (pool sr)"
    by auto
  from run_stays_closed[OF this r] show "isClosed (pool sd) q" by simp
next
  assume "step cfg ev sb = Some se \<and> tasks se tb = Some (Holding p)
      \<and> tasks sb tb \<noteq> Some (Holding p)"
  then show "\<not> isClosed (pool se) p"
    using acquired_page_is_open by blast
qed

theorem failed_reset_page_never_reissued_witness:
  "exclusive (warm_sys CONFIG)
   \<and> run CONFIG [CallAcquire 0, CallRelease 0] (warm_sys CONFIG) = Some reset_pending
   \<and> tasks reset_pending 0 = Some (RelResetting 15)
   \<and> run CONFIG after_failed_reset reset_pending = Some (resume after_failed_reset reset_pending)
   \<and> 15 \<notin> set (pagePool (pool (resume after_failed_reset reset_pending)))
   \<and> (\<forall>t. tasks (resume after_failed_reset reset_pending) t \<noteq> Some (Holding 15))
   \<and> tasks close_pending 0 = Some (RelClosing 15)
   \<and> 15 < nextPage (pool close_pending)
   \<and> run CONFIG after_close close_pending = Some (resume after_close close_pending)
   \<and> isClosed (pool (resume after_close close_pending)) 15
   \<and> step CONFIG (CallAcquire 0) (warm_sys CONFIG) = Some (resume [CallAcquire 0] (warm_sys CONFIG))
   \<and> tasks (resume [CallAcquire 0] (warm_sys CONFIG)) 0 = Some (Holding 15)
   \<and> tasks (warm_sys CONFIG) 0 \<noteq> Some (Holding 15)
   \<and> \<not> isClosed (pool (resume [CallAcquire 0] (warm_sys CONFIG))) 15"
proof -
  have a1: "run CONFIG [CallAcquire 0, CallRelease 0] (warm_sys CONFIG) \<noteq> None"
    by code_simp
  have h1: "run CONFIG [CallAcquire 0, CallRelease 0] (warm_sys CONFIG) = Some reset_pending"
    using run_resume[OF a1] by (simp add: reset_pending_def)
  have h2: "tasks reset_pending 0 = Some (RelResetting 15)"
    by code_simp
  have a3: "run CONFIG after_failed_reset reset_pending \<noteq> None"
    by code_simp
  have h3: "run CONFIG (ResetSettles 0 (Some reset_error) #
              [CloseSettles 0 None, ReplaceSettles 0 CreateSucceeds, CallAcquire 1, CallAcquire 2])
              reset_pending = Some (resume after_failed_reset reset_pending)"
    using run_resume[OF a3] by (simp add: after_failed_reset_def)
  have h4: "tasks close_pending 0 = Some (RelClosing 15)"
    by code_simp
  have h5: "15 < nextPage (pool close_pending)"
    by code_simp
  have a6: "run CONFIG after_close close_pending \<noteq> None"
    by code_simp
  have h6: "run CONFIG (CloseSettles 0 None # [ReplaceSettles 0 CreateSucceeds, CallAcquire 1])
              close_pending = Some (resume after_close close_pending)"
    using run_resume[OF a6] by (simp add: after_close_def)
  have a7: "step CONFIG (CallAcquire 0) (warm_sys CONFIG) \<noteq> None"
    by code_simp
  note h7 = step_resume[OF a7]
  have h8: "tasks (resume [CallAcquire 0] (warm_sys CONFIG)) 0 = Some (Holding 15)"
    by code_simp
  have h9: "tasks (warm_sys CONFIG) 0 \<noteq> Some (Holding 15)"
    by (simp add: warm_sys_def)
  show ?thesis
    using failed_reset_page_never_reissued
      [where cfg = CONFIG and si = "warm_sys CONFIG"
         and pre = "[CallAcquire 0, CallRelease 0]" and sr = reset_pending
         and tid = 0 and S = 15 and e = reset_error
         and post = "[CloseSettles 0 None, ReplaceSettles 0 CreateSucceeds, CallAcquire 1, CallAcquire 2]"
         and sf = "resume after_failed_reset reset_pending"
         and sc = close_pending and tc = 0 and q = 15
         and evs = "[ReplaceSettles 0 CreateSucceeds, CallAcquire 1]"
         and sd = "resume after_close close_pending"
         and ev = "CallAcquire 0" and sb = "warm_sys CONFIG"
         and se = "resume [CallAcquire 0] (warm_sys CONFIG)" and tb = 0 and p = 15]
      warm_exclusive[of CONFIG] h1 h2 h3 h4 h5 h6 h7 h8 h9
    by (simp add: after_failed_reset_def after_close_def)
qed

section \<open>The release after the \<open>try\<close> block, and what follows the readiness wait\<close>

lemma acquirePage_Returned_open:
  assumes a: "acquirePage cfg ce s = (s', Returned p)"
  shows "\<not> isClosed s' p"
proof -
  obtain r rest where po: "pop_open (isClosed s) (pagePool s) = (r, rest)"
    by (cases "pop_open (isClosed s) (pagePool s)")
  obtain s2 r2 where c: "createPage ce (s\<lparr>pagePool := rest\<rparr>) = (s2, r2)"
    by (cases "createPage ce (s\<lparr>pagePool := rest\<rparr>)")
  show ?thesis
  proof (cases r)
    case (Some q)
    with a po pop_open_split[of "isClosed s" "pagePool s" q rest] show ?thesis
      by (auto simp: acquirePage_def)
  next
    case None
    with a po c createPage_fresh[OF c] show ?thesis
      by (auto simp: acquirePage_def Let_def split: if_splits sum.splits)
  qed
qed

lemma releasePage_reset_fails:
  assumes "\<not> isClosed s p" and "r_reset env = Some e"
  shows "take (length (calls s) + 2) (calls (fst (releasePage cfg env p s)))
           = calls s @ [EvaluateClearBody p, ClosePage p]
       \<and> (r_close env = None \<and> p < nextPage s \<longrightarrow> isClosed (fst (releasePage cfg env p s)) p)
       \<and> pagePool (fst (releasePage cfg env p s)) =
           (if length (pagePool s) < PAGE_POOL_SIZE cfg \<and> r_create env = CreateSucceeds
            then [nextPage s] else []) @ pagePool s"
  using assms
  by (cases "r_create env"; cases "r_close env")
     (auto simp: releasePage_def closePage_def createPage_def newPage_def Let_def)

lemma releasePage_Inl_create:
  "releasePage cfg env p s = (s', Inl e) \<Longrightarrow> create_error (r_create env) = Some e"
  by (cases "r_create env")
     (auto simp: releasePage_def closePage_def createPage_def newPage_def Let_def
           split: if_splits option.splits)

lemma render_try_wait_sent:
  assumes "render_try env html ow p s = (s', r)" and "waits (calls s') \<noteq> waits (calls s)"
  shows "pipeline (calls s') = pipeline (calls s) @
           [SetContent p html ''domcontentloaded'', WaitForFunction p 3000, EvaluateBoundingBox p] @
           (case e_measure env of Inl e \<Rightarrow> []
            | Inr (W, H) \<Rightarrow> [Screenshot p (ShotOpts ''png'' (Clip 0 0 W H) False)])
       \<and> r = (case e_measure env of Inl e \<Rightarrow> Inl e | Inr wh \<Rightarrow> e_screenshot env)"
  using assms
  by (auto simp: render_try_def Let_def catch_ignore_def
           split: option.splits sum.splits prod.splits if_splits)

text \<open>
  C2. Once \<open>acquirePage\<close> has returned a page to \<open>render\<close>, whatever the engine does in the
  \<open>try\<close> block (each of the viewport, content, measure and capture calls may raise),
  \<open>render\<close> ends, and its final pool state is the one \<open>releasePage\<close> leaves when run on the
  state the \<open>try\<close> block ended in. The page is not in \<open>busyPages\<close> then, and \<open>busyPages\<close> holds
  what it held before the acquisition, without the page. The page was open when acquired.
  When its reset succeeds, the reset command is the last one sent, the page is back on top
  of \<open>pagePool\<close>, and \<open>render\<close> returns or raises what the \<open>try\<close> block did. When its reset
  fails, the reset and the close commands were sent, the page is closed if the close
  succeeded, and \<open>pagePool\<close> is what it was, with the replacement on top if one was created.
\<close>

theorem render_releases_acquired_page:
  assumes "renderTemplate cfg ejs name d t = (t1, Inr html)"
      and "getBrowser cfg ejs env (t1, s) = ((t2, s2), Inr ())"
      and "acquirePage cfg (e_create env) s2 = (s3, Returned p)"
  shows "let s4 = fst (render_try env html ow p s3);
             out = render cfg ejs env name d ow (t, s)
         in snd (fst out) = fst (releasePage cfg (e_release env) p s4)
          \<and> p \<notin> set (busyPages (snd (fst out)))
          \<and> set (busyPages (snd (fst out))) = set (busyPages s2) - {p}
          \<and> snd out \<noteq> Pending
          \<and> \<not> isClosed s3 p
          \<and> (r_reset (e_release env) = None \<longrightarrow>
                pagePool (snd (fst out)) = p # pagePool s3
              \<and> calls (snd (fst out)) = calls s4 @ [EvaluateClearBody p]
              \<and> snd out = (case snd (render_try env html ow p s3) of
                             Inl e \<Rightarrow> Raised e | Inr png \<Rightarrow> Returned png))
          \<and> (r_reset (e_release env) \<noteq> None \<longrightarrow>
                take (length (calls s4) + 2) (calls (snd (fst out)))
                  = calls s4 @ [EvaluateClearBody p, ClosePage p]
              \<and> (r_close (e_release env) = None \<and> p < nextPage s3 \<longrightarrow>
                    isClosed (snd (fst out)) p)
              \<and> pagePool (snd (fst out)) =
                  (if length (pagePool s3) < PAGE_POOL_SIZE cfg
                      \<and> r_create (e_release env) = CreateSucceeds
                   then [nextPage s3] else []) @ pagePool s3)"
proof -
  obtain s4 r where t: "render_try env html ow p s3 = (s4, r)"
    by (cases "render_try env html ow p s3")
  obtain s5 r' where rel: "releasePage cfg (e_release env) p s4 = (s5, r')"
    by (cases "releasePage cfg (e_release env) p s4")
  have b4: "busyPages s4 = busyPages s3"
    using render_try_pool(1)[of env html ow p s3] t by simp
  have p4: "pagePool s4 = pagePool s3" "nextPage s4 = nextPage s3" "isClosed s4 = isClosed s3"
    using render_try_pool(2,3,4)[of env html ow p s3] t by simp_all
  have b5: "busyPages s5 = set_delete p (busyPages s4)"
    using releasePage_busy[of cfg "e_release env" p s4] rel by simp
  have b3: "set (busyPages s3) = insert p (set (busyPages s2))"
    using acquirePage_Returned_busy[OF assms(3)] .
  have op: "\<not> isClosed s3 p"
    using acquirePage_Returned_open[OF assms(3)] .
  then have op4: "\<not> isClosed s4 p" using p4 by simp
  have out: "render cfg ejs env name d ow (t, s) =
     ((t2, s5), (case r' of Inl e' \<Rightarrow> Raised e'
                 | Inr _ \<Rightarrow> (case r of Inl e \<Rightarrow> Raised e | Inr png \<Rightarrow> Returned png)))"
    using assms t rel by (simp add: render_def split: sum.splits)
  have ok: "r_reset (e_release env) = None \<longrightarrow>
              pagePool s5 = p # pagePool s3 \<and> calls s5 = calls s4 @ [EvaluateClearBody p]
              \<and> r' = Inr ()"
    using releasePage_reset_ok[OF op4, of "e_release env" cfg] rel p4 by auto
  have bad: "r_reset (e_release env) \<noteq> None \<longrightarrow>
                take (length (calls s4) + 2) (calls s5)
                  = calls s4 @ [EvaluateClearBody p, ClosePage p]
              \<and> (r_close (e_release env) = None \<and> p < nextPage s3 \<longrightarrow> isClosed s5 p)
              \<and> pagePool s5 =
                  (if length (pagePool s3) < PAGE_POOL_SIZE cfg
                      \<and> r_create (e_release env) = CreateSucceeds
                   then [nextPage s3] else []) @ pagePool s3"
  proof
    assume "r_reset (e_release env) \<noteq> None"
    then obtain e where e: "r_reset (e_release env) = Some e" by auto
    from releasePage_reset_fails[OF op4 e, of cfg] rel p4
    show "take (length (calls s4) + 2) (calls s5)
                  = calls s4 @ [EvaluateClearBody p, ClosePage p]
              \<and> (r_close (e_release env) = None \<and> p < nextPage s3 \<longrightarrow> isClosed s5 p)
              \<and> pagePool s5 =
                  (if length (pagePool s3) < PAGE_POOL_SIZE cfg
                      \<and> r_create (e_release env) = CreateSucceeds
                   then [nextPage s3] else []) @ pagePool s3"
      by simp
  qed
  have base: "p \<notin> set (busyPages s5) \<and> set (busyPages s5) = set (busyPages s2) - {p}"
    using b3 b4 b5 by auto
  have np: "(case r' of Inl e' \<Rightarrow> Raised e'
                 | Inr _ \<Rightarrow> (case r of Inl e \<Rightarrow> Raised e | Inr png \<Rightarrow> Returned png)) \<noteq> Pending"
    by (auto split: sum.splits)
  have tried: "snd (render_try env html ow p s3) = r" using t by simp
  have outcome: "r_reset (e_release env) = None \<longrightarrow>
      (case r' of Inl e' \<Rightarrow> Raised e'
         | Inr _ \<Rightarrow> (case r of Inl e \<Rightarrow> Raised e | Inr png \<Rightarrow> Returned png))
      = (case r of Inl e \<Rightarrow> Raised e | Inr png \<Rightarrow> Returned png)"
    using ok by simp
  show ?thesis
    using out t rel base np op ok bad outcome by (simp add: Let_def)
qed

theorem render_releases_acquired_page_witness:
  "renderTemplate CONFIG test_ejs ''card'' ''x'' card_v1 = (card_t1, Inr ''old:x'')
   \<and> getBrowser CONFIG test_ejs content_fails (card_t1, init_pstate)
       = ((fst (fst first_browser), snd (fst first_browser)), Inr ())
   \<and> acquirePage CONFIG (e_create content_fails) (snd (fst first_browser))
       = (first_held, Returned 15)
   \<and> 15 \<notin> set (busyPages (snd (fst failed_render)))
   \<and> snd failed_render \<noteq> Pending
   \<and> \<not> isClosed first_held 15
   \<and> r_reset (e_release content_fails) = None
   \<and> pagePool (snd (fst failed_render)) = 15 # pagePool first_held
   \<and> calls (snd (fst failed_render))
       = calls (fst (render_try content_fails ''old:x'' None 15 first_held)) @ [EvaluateClearBody 15]
   \<and> snd failed_render = Raised (LibraryError ''Navigation failed'')
   \<and> getBrowser CONFIG test_ejs reset_fails_render (card_t1, init_pstate)
       = ((fst (fst second_browser), snd (fst second_browser)), Inr ())
   \<and> acquirePage CONFIG (e_create reset_fails_render) (snd (fst second_browser))
       = (second_held, Returned 15)
   \<and> r_reset (e_release reset_fails_render) \<noteq> None
   \<and> r_close (e_release reset_fails_render) = None \<and> 15 < nextPage second_held
   \<and> isClosed (snd (fst failed_render_reset)) 15
   \<and> pagePool (snd (fst failed_render_reset)) = nextPage second_held # pagePool second_held"
proof -
  have h1: "renderTemplate CONFIG test_ejs ''card'' ''x'' card_v1 = (card_t1, Inr ''old:x'')"
    by (simp add: card_t1_def card_v1_def init_tstate_def renderTemplate_def getTemplate_def
          CONFIG_def test_ejs_def ejs_render_def)
  have b: "snd first_browser = Inr ()"
    by code_simp
  have h2: "getBrowser CONFIG test_ejs content_fails (card_t1, init_pstate)
       = ((fst (fst first_browser), snd (fst first_browser)), Inr ())"
    using b by (simp add: first_browser_def prod_eq_iff)
  have a: "snd (acquirePage CONFIG (e_create content_fails) (snd (fst first_browser))) = Returned 15"
    by code_simp
  have h3: "acquirePage CONFIG (e_create content_fails) (snd (fst first_browser))
       = (first_held, Returned 15)"
    using a by (simp add: first_held_def prod_eq_iff)
  have k1: "r_reset (e_release content_fails) = None"
    by (simp add: content_fails_def all_ok_def reset_ok_def)
  have k2: "snd (render_try content_fails ''old:x'' None 15 first_held)
              = Inl (LibraryError ''Navigation failed'')"
    by code_simp
  have b': "snd second_browser = Inr ()"
    by code_simp
  have h2': "getBrowser CONFIG test_ejs reset_fails_render (card_t1, init_pstate)
       = ((fst (fst second_browser), snd (fst second_browser)), Inr ())"
    using b' by (simp add: second_browser_def prod_eq_iff)
  have a': "snd (acquirePage CONFIG (e_create reset_fails_render) (snd (fst second_browser)))
              = Returned 15"
    by code_simp
  have h3': "acquirePage CONFIG (e_create reset_fails_render) (snd (fst second_browser))
       = (second_held, Returned 15)"
    using a' by (simp add: second_held_def prod_eq_iff)
  have k3: "r_reset (e_release reset_fails_render) \<noteq> None
     \<and> r_close (e_release reset_fails_render) = None
     \<and> r_create (e_release reset_fails_render) = CreateSucceeds"
    by (simp add: reset_fails_render_def reset_fails_replaced_def)
  have k4: "15 < nextPage second_held \<and> length (pagePool second_held) < PAGE_POOL_SIZE CONFIG"
    by code_simp
  show ?thesis
    using render_releases_acquired_page [OF h1 h2 h3, of None, unfolded Let_def, THEN conjunct2]
      render_releases_acquired_page [OF h1 h2' h3', of None, unfolded Let_def, THEN conjunct2]
      h1 h2 h3 h2' h3' k1 k2 k3 k4
    by (simp add: failed_render_def failed_render_reset_def)
qed

text \<open>
  C8. The readiness wait is sent with \<open>timeout: 3000\<close> and at most once per call of \<open>render\<close>.
  A wait that is rejected (by its timeout or otherwise) changes nothing: the result of
  \<open>render\<close> and the final state, with the commands sent after the wait, are those of the
  call whose wait succeeded. Whenever the wait was sent, however it ended, the measure
  command follows it, and the capture follows the measure when the measure succeeds; when
  measure and capture succeed and no replacement page fails to be created in the release,
  \<open>render\<close> returns the bitmap.
\<close>

theorem readiness_timeout_proceeds:
  "render cfg ejs (env\<lparr>e_wait := Some e\<rparr>) name d ow ts
     = render cfg ejs (env\<lparr>e_wait := None\<rparr>) name d ow ts
   \<and> (render cfg ejs env name d ow (t, s) = ((t', s'), out) \<longrightarrow>
        waits (calls s') = waits (calls s)
        \<or> (\<exists>p. waits (calls s') = waits (calls s) @ [(p, 3000)]))
   \<and> (render cfg ejs env name d ow (t, s) = ((t', s'), out)
        \<and> waits (calls s') \<noteq> waits (calls s) \<longrightarrow>
        (\<exists>p html. pipeline (calls s') = pipeline (calls s) @
            [SetContent p html ''domcontentloaded'', WaitForFunction p 3000,
             EvaluateBoundingBox p] @
            (case e_measure env of Inl x \<Rightarrow> []
             | Inr (W, H) \<Rightarrow> [Screenshot p (ShotOpts ''png'' (Clip 0 0 W H) False)]))
        \<and> (e_measure env = Inr (bw, bh) \<and> e_screenshot env = Inr png
             \<and> create_error (r_create (e_release env)) = None \<longrightarrow> out = Returned png))"
proof (intro conjI impI)
  show "render cfg ejs (env\<lparr>e_wait := Some e\<rparr>) name d ow ts
     = render cfg ejs (env\<lparr>e_wait := None\<rparr>) name d ow ts"
    by (simp add: render_wait_irrelevant)
next
  assume "render cfg ejs env name d ow (t, s) = ((t', s'), out)"
  then show "waits (calls s') = waits (calls s)
        \<or> (\<exists>p. waits (calls s') = waits (calls s) @ [(p, 3000)])"
    by (rule render_waits)
next
  assume a: "render cfg ejs env name d ow (t, s) = ((t', s'), out)
        \<and> waits (calls s') \<noteq> waits (calls s)"
  then have r: "render cfg ejs env name d ow (t, s) = ((t', s'), out)"
    and w: "waits (calls s') \<noteq> waits (calls s)" by simp_all
  have same: "pipeline (calls s') = pipeline (calls s) \<Longrightarrow> False"
  proof -
    assume "pipeline (calls s') = pipeline (calls s)"
    then have "waits (pipeline (calls s')) = waits (pipeline (calls s))" by simp
    with w show False by (simp add: waits_pipeline)
  qed
  from render_stages[OF r] same obtain html s3 p s4 r4 r5 where
    tr: "render_try env html ow p s3 = (s4, r4)" and
    rl: "releasePage cfg (e_release env) p s4 = (s', r5)" and
    c3: "pipeline (calls s3) = pipeline (calls s)" and
    c5: "pipeline (calls s') = pipeline (calls s4)" and
    out: "out = (case r5 of Inl e' \<Rightarrow> Raised e'
                    | Inr _ \<Rightarrow> (case r4 of Inl e \<Rightarrow> Raised e | Inr png \<Rightarrow> Returned png))"
    by blast
  have w3: "waits (calls s3) = waits (calls s)"
    using arg_cong[OF c3, of waits] by (simp add: waits_pipeline)
  have w5: "waits (calls s') = waits (calls s4)"
    using arg_cong[OF c5, of waits] by (simp add: waits_pipeline)
  from w w3 w5 have "waits (calls s4) \<noteq> waits (calls s3)" by simp
  note sent = render_try_wait_sent[OF tr this]
  from sent c3 c5
  show "\<exists>p html. pipeline (calls s') = pipeline (calls s) @
            [SetContent p html ''domcontentloaded'', WaitForFunction p 3000,
             EvaluateBoundingBox p] @
            (case e_measure env of Inl x \<Rightarrow> []
             | Inr (W, H) \<Rightarrow> [Screenshot p (ShotOpts ''png'' (Clip 0 0 W H) False)])"
    by auto
  assume m: "e_measure env = Inr (bw, bh) \<and> e_screenshot env = Inr png
             \<and> create_error (r_create (e_release env)) = None"
  have "r5 = Inr ()"
  proof (cases r5)
    case (Inl e')
    with releasePage_Inl_create[OF rl[unfolded Inl]] m show ?thesis by simp
  next
    case (Inr u)
    then show ?thesis by simp
  qed
  with sent m out show "out = Returned png" by simp
qed

theorem readiness_timeout_proceeds_witness:
  "render CONFIG test_ejs wait_times_out ''card'' ''x'' None (card_v1, init_pstate)
     = ((fst (fst timeout_render), snd (fst timeout_render)), Returned ''PNG'')
   \<and> (waits (calls (snd (fst timeout_render))) = waits (calls init_pstate)
      \<or> (\<exists>p. waits (calls (snd (fst timeout_render))) = waits (calls init_pstate) @ [(p, 3000)]))
   \<and> waits (calls (snd (fst timeout_render))) = [(15, 3000)]
   \<and> e_wait wait_times_out \<noteq> None
   \<and> waits (calls (snd (fst timeout_render))) \<noteq> waits (calls init_pstate)
   \<and> e_measure wait_times_out = Inr (800, 420) \<and> e_screenshot wait_times_out = Inr ''PNG''
   \<and> create_error (r_create (e_release wait_times_out)) = None
   \<and> (\<exists>p html. pipeline (calls (snd (fst timeout_render))) = pipeline (calls init_pstate) @
          [SetContent p html ''domcontentloaded'', WaitForFunction p 3000, EvaluateBoundingBox p,
           Screenshot p (ShotOpts ''png'' (Clip 0 0 800 420) False)])"
proof -
  have r: "snd timeout_render = Returned ''PNG''"
    by code_simp
  have h: "render CONFIG test_ejs wait_times_out ''card'' ''x'' None (card_v1, init_pstate)
     = ((fst (fst timeout_render), snd (fst timeout_render)), Returned ''PNG'')"
    using r by (simp add: timeout_render_def prod_eq_iff)
  have w: "waits (calls (snd (fst timeout_render))) = [(15, 3000)]"
    by code_simp
  have w0: "waits (calls init_pstate) = []"
    by (simp add: init_pstate_def)
  have n: "e_wait wait_times_out \<noteq> None"
    by (simp add: wait_times_out_def)
  have m: "e_measure wait_times_out = Inr (800, 420) \<and> e_screenshot wait_times_out = Inr ''PNG''
     \<and> create_error (r_create (e_release wait_times_out)) = None"
    by (simp add: wait_times_out_def all_ok_def reset_ok_def)
  show ?thesis
    using readiness_timeout_proceeds
      [where cfg = CONFIG and ejs = test_ejs and env = wait_times_out and name = "''card''"
         and d = "''x''" and ow = None and t = card_v1 and s = init_pstate
         and t' = "fst (fst timeout_render)" and s' = "snd (fst timeout_render)"
         and out = "Returned ''PNG''" and bw = 800 and bh = 420 and png = "''PNG''"] h w w0 n m
    by simp
qed

end
